theory Spec2Isabelle
  imports Complex_Main "HOL-Library.Word" "HOL-Library.AList"
begin

section \<open>GBA centrality: adjacency powers and propagation scores\<close>

text \<open>
  A shallow embedding of \<^verbatim>\<open>scripts/GBA_centrality.py\<close> (\<^verbatim>\<open>get_adjacency_matrices\<close>,
  \<^verbatim>\<open>calculate_scores\<close>) and of \<^verbatim>\<open>dev/contributions_at_distances.py\<close>
  (\<^verbatim>\<open>calculate_contributions\<close>).

  Conventions of the embedding.
  \<^item> A \<^verbatim>\<open>networkx.Graph\<close> is a record of its node list (the iteration order of
    \<^verbatim>\<open>interactome.nodes()\<close>) and its undirected edges.
  \<^item> A scipy sparse array of \<^verbatim>\<open>dtype=bool\<close> is the list of its rows, each a list of
    booleans: the model is about the values of the array, not about which zeros are stored.
  \<^item> A numpy array of \<^verbatim>\<open>dtype=uint8\<close> is a list of \<open>8 word\<close>, so sums wrap modulo 256.
  \<^item> A numpy array of \<^verbatim>\<open>float64\<close> and a Python float are modelled by exact reals: rounding,
    overflow and underflow of floating-point arithmetic are outside the model. The one
    place where the source can produce a non-finite float, the element-wise division, is
    modelled with the three IEEE outcomes of a division by zero.
  \<^item> The exceptions of the code are values of \<open>py_error\<close>. The \<^verbatim>\<open>OverflowError\<close> that
    Python raises when a float power leaves the \<^verbatim>\<open>float64\<close> range belongs to the
    floating-point arithmetic and is outside the model with it.
\<close>

subsection \<open>Data model\<close>

datatype py_error = NetworkXError | ValueError | AttributeError | ZeroDivisionError

record 'a graph =
  nodes :: "'a list"
  edges :: "('a \<times> 'a) list"

type_synonym bool_array = "bool list list"

text \<open>
  The list \<^verbatim>\<open>adjacency_matrices\<close> is heterogeneous in the source: the integer \<^verbatim>\<open>0\<close> at
  index 0 (\<open>Unused\<close>), sparse arrays from index 1 on (\<open>Arr\<close>).
\<close>

datatype adj_entry = Unused | Arr bool_array

datatype float64 = Finite real | NaN | PosInf | NegInf

subsection \<open>Sparse boolean arrays\<close>

definition ncols :: "bool_array \<Rightarrow> nat" where
  "ncols M = (case M of [] \<Rightarrow> 0 | r # _ \<Rightarrow> length r)"

definition shape_ok :: "nat \<Rightarrow> bool_array \<Rightarrow> bool" where
  "shape_ok n M \<longleftrightarrow> length M = n \<and> list_all (\<lambda>r. length r = n) M"

text \<open>
  \<^verbatim>\<open>networkx.to_scipy_sparse_array(interactome, dtype=bool)\<close>: the library raises
  \<^verbatim>\<open>NetworkXError\<close> on a graph without nodes; otherwise entry \<open>(i, j)\<close> is true iff the
  graph has an edge between its \<open>i\<close>-th and \<open>j\<close>-th node (edges are undirected and carry no
  weight, so every edge is stored as \<^verbatim>\<open>True\<close>; a self-loop gives a true diagonal entry).
\<close>

definition has_edge :: "'a graph \<Rightarrow> 'a \<Rightarrow> 'a \<Rightarrow> bool" where
  "has_edge G u v \<longleftrightarrow> (u, v) \<in> set (edges G) \<or> (v, u) \<in> set (edges G)"

definition to_scipy_sparse_array :: "'a graph \<Rightarrow> py_error + bool_array" where
  "to_scipy_sparse_array G =
     (if nodes G = [] then Inl NetworkXError
      else Inr (map (\<lambda>u. map (\<lambda>v. has_edge G u v) (nodes G)) (nodes G)))"

text \<open>\<^verbatim>\<open>res.diagonal()\<close> and \<^verbatim>\<open>.nonzero()\<close> (the indices of the true entries).\<close>

definition diagonal :: "bool_array \<Rightarrow> bool list" where
  "diagonal M = map (\<lambda>i. M ! i ! i) [0..<min (length M) (ncols M)]"

definition nonzero :: "bool list \<Rightarrow> nat list" where
  "nonzero v = filter (\<lambda>i. v ! i) [0..<length v]"

text \<open>\<^verbatim>\<open>res[i, j] = x\<close> for one index pair inside the array.\<close>

definition set_item :: "bool_array \<Rightarrow> nat \<Rightarrow> nat \<Rightarrow> bool \<Rightarrow> bool_array" where
  "set_item M i j x = M[i := (M ! i)[j := x]]"

text \<open>
  The two source lines
  \<^verbatim>\<open>nonzero, = res.diagonal().nonzero()\<close> and \<^verbatim>\<open>res[nonzero, nonzero] = 0\<close>:
  the assignment visits the index pairs \<open>(i, i)\<close> for \<open>i\<close> in \<^verbatim>\<open>nonzero\<close>.
\<close>

definition zero_nonzero_diagonal :: "bool_array \<Rightarrow> bool_array" where
  "zero_nonzero_diagonal M =
     (let nz = nonzero (diagonal M) in fold (\<lambda>i R. set_item R i i False) nz M)"

text \<open>
  \<^verbatim>\<open>res.setdiag(0)\<close>, the full diagonal clear that the source comments name as the
  reference behaviour: every diagonal position of the array is assigned.
\<close>

definition setdiag :: "bool_array \<Rightarrow> bool \<Rightarrow> bool_array" where
  "setdiag M x = map (\<lambda>i. (M ! i)[i := x]) [0..<length M]"

text \<open>
  \<^verbatim>\<open>res @ A\<close> on two arrays of \<^verbatim>\<open>dtype=bool\<close>: scipy multiplies with logical and, adds with
  logical or, and the result has \<^verbatim>\<open>dtype=bool\<close> again. Both operands are \<open>n \<times> n\<close> here, so
  the dimension check of \<^verbatim>\<open>@\<close> cannot fail.
\<close>

definition matmul :: "bool_array \<Rightarrow> bool_array \<Rightarrow> bool_array" where
  "matmul R A =
     map (\<lambda>row. map (\<lambda>j. list_ex (\<lambda>k. row ! k \<and> A ! k ! j) [0..<length A]) [0..<ncols A]) R"

subsection \<open>The adjacency power builder\<close>

text \<open>
  The loop \<^verbatim>\<open>for power in range(2, d_max + 1)\<close>; its state is the pair of \<^verbatim>\<open>res\<close> and
  the list \<^verbatim>\<open>adjacency_matrices\<close>.
\<close>

fun power_loop ::
  "int list \<Rightarrow> bool_array \<Rightarrow> bool_array \<times> adj_entry list \<Rightarrow> bool_array \<times> adj_entry list"
where
  "power_loop [] A (res, adjacency_matrices) = (res, adjacency_matrices)"
| "power_loop (pw # ps) A (res, adjacency_matrices) =
     (let res = matmul res A;
          res = zero_nonzero_diagonal res
      in power_loop ps A (res, adjacency_matrices @ [Arr res]))"

text \<open>
  \<^verbatim>\<open>get_adjacency_matrices\<close> has the same text in \<^verbatim>\<open>scripts/GBA_centrality.py\<close> and in
  \<^verbatim>\<open>dev/contributions_at_distances.py\<close>; one definition stands for both.
  After \<^verbatim>\<open>res = A\<close> both names denote the same array object, so the in-place assignment
  \<^verbatim>\<open>res[nonzero, nonzero] = 0\<close> before the loop clears the diagonal of \<^verbatim>\<open>A\<close> as well: the
  loop multiplies by the adjacency array without self-loops. Inside the loop \<^verbatim>\<open>res @ A\<close>
  makes a new object, and \<^verbatim>\<open>A\<close> is not changed again.
\<close>

definition get_adjacency_matrices :: "'a graph \<Rightarrow> int \<Rightarrow> py_error + adj_entry list" where
  "get_adjacency_matrices interactome d_max =
     (let adjacency_matrices = [Unused] in
      case to_scipy_sparse_array interactome of
        Inl e \<Rightarrow> Inl e
      | Inr A0 \<Rightarrow>
          let A = zero_nonzero_diagonal A0;
              res = A;
              adjacency_matrices = adjacency_matrices @ [Arr res]
          in Inr (snd (power_loop [2..d_max] A (res, adjacency_matrices))))"

subsection \<open>The propagation scorer\<close>

text \<open>
  The loop that fills \<^verbatim>\<open>causal_genes_vec\<close>: one pass over \<^verbatim>\<open>interactome.nodes()\<close> with
  the running index \<^verbatim>\<open>ni\<close>. The dictionary \<^verbatim>\<open>causal_genes\<close> is a map, and
  \<^verbatim>\<open>n in causal_genes\<close> asks whether \<open>n\<close> is one of its keys.
\<close>

fun causal_loop :: "'a list \<Rightarrow> ('a \<rightharpoonup> int) \<Rightarrow> nat \<Rightarrow> 8 word list \<Rightarrow> 8 word list" where
  "causal_loop [] causal_genes ni causal_genes_vec = causal_genes_vec"
| "causal_loop (n # ns) causal_genes ni causal_genes_vec =
     causal_loop ns causal_genes (ni + 1)
       (if causal_genes n \<noteq> None then causal_genes_vec[ni := 1] else causal_genes_vec)"

text \<open>
  \<^verbatim>\<open>A.dot(x)\<close> for a sparse array \<open>A\<close> and a dense vector \<open>x\<close>. scipy raises \<^verbatim>\<open>ValueError\<close>
  (dimension mismatch) unless the length of \<open>x\<close> is the number of columns of \<open>A\<close>. The result
  has the common type of the two operands and each row sum is accumulated in that type:
  \<^verbatim>\<open>uint8\<close> for a \<^verbatim>\<open>bool\<close> array and a \<^verbatim>\<open>uint8\<close> vector (\<^verbatim>\<open>causal_genes_vec\<close>), so the sum
  wraps modulo 256; \<^verbatim>\<open>float64\<close> for a \<^verbatim>\<open>bool\<close> array and a \<^verbatim>\<open>float64\<close> vector (\<^verbatim>\<open>ones_vec\<close>).
\<close>

definition row_dot_uint8 :: "bool list \<Rightarrow> 8 word list \<Rightarrow> 8 word" where
  "row_dot_uint8 row x = sum_list (map2 (\<lambda>a v. (if a then 1 else 0) * v) row x)"

definition dot_uint8 :: "bool_array \<Rightarrow> 8 word list \<Rightarrow> py_error + 8 word list" where
  "dot_uint8 A x =
     (if ncols A \<noteq> length x then Inl ValueError
      else Inr (map (\<lambda>row. row_dot_uint8 row x) A))"

definition row_dot_float64 :: "bool list \<Rightarrow> real list \<Rightarrow> real" where
  "row_dot_float64 row x = sum_list (map2 (\<lambda>a v. (if a then 1 else 0) * v) row x)"

definition dot_float64 :: "bool_array \<Rightarrow> real list \<Rightarrow> py_error + real list" where
  "dot_float64 A x =
     (if ncols A \<noteq> length x then Inl ValueError
      else Inr (map (\<lambda>row. row_dot_float64 row x) A))"

text \<open>
  The in-place addition \<^verbatim>\<open>acc += r\<close> of numpy on one-dimensional arrays: element-wise for
  equal lengths, a one-element \<open>r\<close> is broadcast, any other pair of shapes raises
  \<^verbatim>\<open>ValueError\<close>.
\<close>

definition iadd :: "real list \<Rightarrow> real list \<Rightarrow> py_error + real list" where
  "iadd acc r =
     (if length r = length acc then Inr (map2 (+) acc r)
      else if length r = 1 then Inr (map (\<lambda>a. a + r ! 0) acc)
      else Inl ValueError)"

text \<open>
  One iteration of \<^verbatim>\<open>for d in range(1, len(adjacency_matrices))\<close> in \<^verbatim>\<open>calculate_scores\<close>,
  in the source's order of evaluation. \<^verbatim>\<open>adjacency_matrices[d]\<close> is in range for every
  \<open>d\<close> the loop visits; the integer placeholder has no \<^verbatim>\<open>dot\<close> (\<^verbatim>\<open>AttributeError\<close>).
  \<^verbatim>\<open>alpha / alpha_norm\<close> divides two Python floats and raises \<^verbatim>\<open>ZeroDivisionError\<close> for
  a zero divisor.
\<close>

definition score_step ::
  "adj_entry list \<Rightarrow> 8 word list \<Rightarrow> real list \<Rightarrow> real \<Rightarrow> real \<Rightarrow> nat \<Rightarrow>
   real list \<times> real list \<Rightarrow> py_error + real list \<times> real list"
where
  "score_step adjacency_matrices causal_genes_vec ones_vec alpha alpha_norm d s =
     (case s of (scores_vec, norm_factors_vec) \<Rightarrow>
      case adjacency_matrices ! d of
        Unused \<Rightarrow> Inl AttributeError
      | Arr A \<Rightarrow>
         (case dot_uint8 A causal_genes_vec of
            Inl e \<Rightarrow> Inl e
          | Inr sc \<Rightarrow>
         (case iadd scores_vec (map (\<lambda>w. alpha ^ d * real (unat w)) sc) of
            Inl e \<Rightarrow> Inl e
          | Inr scores_vec \<Rightarrow>
          if alpha_norm = 0 then Inl ZeroDivisionError
          else
         (case dot_float64 A ones_vec of
            Inl e \<Rightarrow> Inl e
          | Inr nm \<Rightarrow>
         (case iadd norm_factors_vec (map (\<lambda>x. (alpha / alpha_norm) ^ d * x) nm) of
            Inl e \<Rightarrow> Inl e
          | Inr norm_factors_vec \<Rightarrow> Inr (scores_vec, norm_factors_vec))))))"

fun score_loop ::
  "nat list \<Rightarrow> adj_entry list \<Rightarrow> 8 word list \<Rightarrow> real list \<Rightarrow> real \<Rightarrow> real \<Rightarrow>
   real list \<times> real list \<Rightarrow> py_error + real list \<times> real list"
where
  "score_loop [] adjacency_matrices causal_genes_vec ones_vec alpha alpha_norm s = Inr s"
| "score_loop (d # ds) adjacency_matrices causal_genes_vec ones_vec alpha alpha_norm s =
     (case score_step adjacency_matrices causal_genes_vec ones_vec alpha alpha_norm d s of
        Inl e \<Rightarrow> Inl e
      | Inr s' \<Rightarrow> score_loop ds adjacency_matrices causal_genes_vec ones_vec alpha alpha_norm s')"

text \<open>
  \<^verbatim>\<open>scores_vec / norm_factors_vec\<close> on \<^verbatim>\<open>float64\<close> arrays, one element: numpy does not raise
  on a zero divisor (it warns) and stores \<^verbatim>\<open>nan\<close> for \<open>0 / 0\<close> and a signed infinity otherwise.
\<close>

definition true_divide :: "real \<Rightarrow> real \<Rightarrow> float64" where
  "true_divide x y =
     (if y \<noteq> 0 then Finite (x / y)
      else if x = 0 then NaN
      else if 0 < x then PosInf
      else NegInf)"

text \<open>
  \<^verbatim>\<open>dict(pairs)\<close>: a Python dictionary keeps insertion order, and a key that comes again
  keeps its place and takes the new value. The dictionary is the association list of its
  items in that order.
\<close>

definition dict :: "('k \<times> 'v) list \<Rightarrow> ('k \<times> 'v) list" where
  "dict ps = fold (\<lambda>(k, v) d. AList.update k v d) ps []"

subsection \<open>The loop of the diagnostic mode\<close>

text \<open>
  \<^verbatim>\<open>calculate_contributions\<close> of \<^verbatim>\<open>dev/contributions_at_distances.py\<close> returns nothing; its
  effect is the pair of \<^verbatim>\<open>.npz\<close> files that each iteration writes with \<^verbatim>\<open>numpy.savez\<close>.
  The file names differ between iterations only in \<open>d\<close> (\<^verbatim>\<open>patho\<close>, \<^verbatim>\<open>alpha\<close>, \<^verbatim>\<open>d_max\<close> and
  \<^verbatim>\<open>alpha_norm\<close> are fixed in a run), so the files written by a run are modelled as the list
  of triples \<open>(d, scores_vec_tmp, norm_factors_vec_tmp)\<close> in the order of writing. Both files
  of an iteration are written at its end; the files of earlier iterations stay when a later
  one raises, so the run returns the list written so far beside the error. The file system
  itself is outside the model: \<^verbatim>\<open>numpy.savez\<close> is taken to succeed.
\<close>

type_synonym saved = "nat \<times> real list \<times> real list"

definition contributions_step ::
  "adj_entry list \<Rightarrow> 8 word list \<Rightarrow> real list \<Rightarrow> real \<Rightarrow> real \<Rightarrow> nat \<Rightarrow>
   real list \<times> real list \<times> saved list \<Rightarrow> py_error + real list \<times> real list \<times> saved list"
where
  "contributions_step adjacency_matrices causal_genes_vec ones_vec alpha alpha_norm d s =
     (case s of (scores_vec, norm_factors_vec, files) \<Rightarrow>
      case adjacency_matrices ! d of
        Unused \<Rightarrow> Inl AttributeError
      | Arr A \<Rightarrow>
         (case dot_uint8 A causal_genes_vec of
            Inl e \<Rightarrow> Inl e
          | Inr sc \<Rightarrow>
          let scores_vec_tmp = map (\<lambda>w. alpha ^ d * real (unat w)) sc in
         (case iadd scores_vec scores_vec_tmp of
            Inl e \<Rightarrow> Inl e
          | Inr scores_vec \<Rightarrow>
          if alpha_norm = 0 then Inl ZeroDivisionError
          else
         (case dot_float64 A ones_vec of
            Inl e \<Rightarrow> Inl e
          | Inr nm \<Rightarrow>
          let norm_factors_vec_tmp = map (\<lambda>x. (alpha / alpha_norm) ^ d * x) nm in
         (case iadd norm_factors_vec norm_factors_vec_tmp of
            Inl e \<Rightarrow> Inl e
          | Inr norm_factors_vec \<Rightarrow>
              Inr (scores_vec, norm_factors_vec,
                   files @ [(d, scores_vec_tmp, norm_factors_vec_tmp)]))))))"

fun contributions_loop ::
  "nat list \<Rightarrow> adj_entry list \<Rightarrow> 8 word list \<Rightarrow> real list \<Rightarrow> real \<Rightarrow> real \<Rightarrow>
   real list \<times> real list \<times> saved list \<Rightarrow> py_error option \<times> saved list"
where
  "contributions_loop [] adjacency_matrices causal_genes_vec ones_vec alpha alpha_norm s =
     (None, snd (snd s))"
| "contributions_loop (d # ds) adjacency_matrices causal_genes_vec ones_vec alpha alpha_norm s =
     (case contributions_step adjacency_matrices causal_genes_vec ones_vec alpha alpha_norm d s of
        Inl e \<Rightarrow> (Some e, snd (snd s))
      | Inr s' \<Rightarrow>
          contributions_loop ds adjacency_matrices causal_genes_vec ones_vec alpha alpha_norm s')"

subsection \<open>The two entry points\<close>

text \<open>
  The part of \<^verbatim>\<open>calculate_scores\<close> up to the end of the loop (source lines 54 to 69): the
  indicator vector, the three initial arrays and the accumulation. Its result is the pair
  \<^verbatim>\<open>(scores_vec, norm_factors_vec)\<close> as it stands before the division.
\<close>

definition causal_genes_vec :: "'a graph \<Rightarrow> ('a \<rightharpoonup> int) \<Rightarrow> 8 word list" where
  "causal_genes_vec interactome causal_genes =
     causal_loop (nodes interactome) causal_genes 0 (replicate (length (nodes interactome)) 0)"

definition accumulate_scores ::
  "'a graph \<Rightarrow> adj_entry list \<Rightarrow> ('a \<rightharpoonup> int) \<Rightarrow> real \<Rightarrow> real \<Rightarrow>
   py_error + real list \<times> real list"
where
  "accumulate_scores interactome adjacency_matrices causal_genes alpha alpha_norm =
     (let cgv = causal_genes_vec interactome causal_genes;
          scores_vec = replicate (length cgv) 0;
          norm_factors_vec = replicate (length cgv) 0;
          ones_vec = replicate (length cgv) 1
      in score_loop [1..<length adjacency_matrices] adjacency_matrices cgv ones_vec
           alpha alpha_norm (scores_vec, norm_factors_vec))"

definition calculate_scores ::
  "'a graph \<Rightarrow> adj_entry list \<Rightarrow> ('a \<rightharpoonup> int) \<Rightarrow> real \<Rightarrow> real \<Rightarrow>
   py_error + ('a \<times> float64) list"
where
  "calculate_scores interactome adjacency_matrices causal_genes alpha alpha_norm =
     (case accumulate_scores interactome adjacency_matrices causal_genes alpha alpha_norm of
        Inl e \<Rightarrow> Inl e
      | Inr (scores_vec, norm_factors_vec) \<Rightarrow>
          let scores_vec_normalized = map2 true_divide scores_vec norm_factors_vec;
              scores = dict (zip (nodes interactome) scores_vec_normalized)
          in Inr scores)"

definition calculate_contributions ::
  "'a graph \<Rightarrow> adj_entry list \<Rightarrow> ('a \<rightharpoonup> int) \<Rightarrow> real \<Rightarrow> int \<Rightarrow> real \<Rightarrow> string \<Rightarrow>
   py_error option \<times> saved list"
where
  "calculate_contributions interactome adjacency_matrices causal_genes alpha d_max alpha_norm patho =
     (let cgv = causal_genes_vec interactome causal_genes;
          scores_vec = replicate (length cgv) 0;
          norm_factors_vec = replicate (length cgv) 0;
          ones_vec = replicate (length cgv) 1
      in contributions_loop [1..<length adjacency_matrices] adjacency_matrices cgv ones_vec
           alpha alpha_norm (scores_vec, norm_factors_vec, []))"

section \<open>Notions used in the statements\<close>

text \<open>
  The array behind an entry of \<^verbatim>\<open>adjacency_matrices\<close>, and the shape that
  \<^verbatim>\<open>calculate_scores\<close> expects of its argument (its docstring: the list returned by
  \<^verbatim>\<open>get_adjacency_matrices\<close>): every entry after the placeholder is an \<open>n \<times> n\<close> array,
  \<open>n\<close> the number of nodes.
\<close>

definition the_arr :: "adj_entry \<Rightarrow> bool_array" where
  "the_arr e = (case e of Unused \<Rightarrow> [] | Arr A \<Rightarrow> A)"

definition powers_ok :: "nat \<Rightarrow> adj_entry list \<Rightarrow> bool" where
  "powers_ok n mats \<longleftrightarrow>
     list_all (\<lambda>e. case e of Unused \<Rightarrow> False | Arr A \<Rightarrow> shape_ok n A) (tl mats)"

text \<open>
  What one node \<open>i\<close> receives in iteration \<open>d\<close> of the loop, and over the whole loop: the
  node-wise reading of the two vector accumulations, with the dot products of the code.
\<close>

definition score_term :: "adj_entry list \<Rightarrow> 8 word list \<Rightarrow> real \<Rightarrow> nat \<Rightarrow> nat \<Rightarrow> real" where
  "score_term mats c alpha i d =
     alpha ^ d * real (unat (row_dot_uint8 (the_arr (mats ! d) ! i) c))"

definition norm_term ::
  "adj_entry list \<Rightarrow> real list \<Rightarrow> real \<Rightarrow> real \<Rightarrow> nat \<Rightarrow> nat \<Rightarrow> real" where
  "norm_term mats ones alpha alpha_norm i d =
     (alpha / alpha_norm) ^ d * row_dot_float64 (the_arr (mats ! d) ! i) ones"

definition node_score_sum :: "adj_entry list \<Rightarrow> 8 word list \<Rightarrow> real \<Rightarrow> nat \<Rightarrow> real" where
  "node_score_sum mats c alpha i = (\<Sum>d\<leftarrow>[1..<length mats]. score_term mats c alpha i d)"

definition node_norm_sum :: "adj_entry list \<Rightarrow> nat \<Rightarrow> real \<Rightarrow> real \<Rightarrow> nat \<Rightarrow> real" where
  "node_norm_sum mats n alpha alpha_norm i =
     (\<Sum>d\<leftarrow>[1..<length mats]. norm_term mats (replicate n 1) alpha alpha_norm i d)"

text \<open>Inputs used to run the definitions: a path \<open>A \<midarrow> B \<midarrow> C\<close> and its two powers.\<close>

definition path3 :: "string graph" where
  "path3 = \<lparr>nodes = [''A'', ''B'', ''C''], edges = [(''A'', ''B''), (''B'', ''C'')]\<rparr>"

definition path3_powers :: "adj_entry list" where
  "path3_powers =
     [Unused,
      Arr [[False, True, False], [True, False, True], [False, True, False]],
      Arr [[False, False, True], [False, False, False], [True, False, False]]]"

text \<open>The sum of a list of vectors of length \<open>n\<close>, position by position.\<close>

definition sum_vectors :: "nat \<Rightarrow> real list list \<Rightarrow> real list" where
  "sum_vectors n vs = map (\<lambda>i. \<Sum>v\<leftarrow>vs. v ! i) [0..<n]"

text \<open>
  A graph with an isolated node \<open>C\<close> beside the edge \<open>A \<midarrow> B\<close>, and its one power.
\<close>

definition iso3 :: "string graph" where
  "iso3 = \<lparr>nodes = [''A'', ''B'', ''C''], edges = [(''A'', ''B'')]\<rparr>"

definition iso3_powers :: "adj_entry list" where
  "iso3_powers =
     [Unused, Arr [[False, True, False], [True, False, False], [False, False, False]]]"

text \<open>
  A walk of length \<open>d\<close> in the graph, from the node at position \<open>i\<close> to the node at position
  \<open>j\<close>; and a graph of one edge.
\<close>

fun walk :: "'a graph \<Rightarrow> nat \<Rightarrow> nat \<Rightarrow> nat \<Rightarrow> bool" where
  "walk G 0 i j \<longleftrightarrow> i = j"
| "walk G (Suc d) i j \<longleftrightarrow>
     list_ex (\<lambda>k. walk G d i k \<and> has_edge G (nodes G ! k) (nodes G ! j)) [0..<length (nodes G)]"

definition edge2 :: "string graph" where
  "edge2 = \<lparr>nodes = [''A'', ''B''], edges = [(''A'', ''B'')]\<rparr>"

text \<open>
  The docstring of \<^verbatim>\<open>get_adjacency_matrices\<close> on what it returns: "array at index i
  (starting at i==1) is A**i (except the diagonal is zeroed) where A is the adjacency matrix
  of interactome". \<open>array_power A k\<close> is the product of \<open>k + 1\<close> copies of \<open>A\<close>, and
  \<open>docstring_array A i\<close> is the array that the docstring describes for index \<open>i\<close>.
\<close>

fun array_power :: "bool_array \<Rightarrow> nat \<Rightarrow> bool_array" where
  "array_power A 0 = A"
| "array_power A (Suc k) = matmul (array_power A k) A"

definition docstring_array :: "bool_array \<Rightarrow> nat \<Rightarrow> bool_array" where
  "docstring_array A i = setdiag (array_power A (i - 1)) False"

text \<open>Two small graphs for the argument checks of the builder.\<close>

definition empty_graph :: "string graph" where
  "empty_graph = \<lparr>nodes = [], edges = []\<rparr>"

definition single_node :: "string graph" where
  "single_node = \<lparr>nodes = [''A''], edges = []\<rparr>"

text \<open>
  The scoring as the specification words it, for comparison with the code. The indicator
  vector \<open>c\<close> is 1 at the causal genes and 0 elsewhere; \<open>A\<^sup>d \<cdot> c\<close> is the dot product of
  numbers, without a machine width; for each distance \<open>d\<close> from 1 to the last,
  \<open>score += alpha\<^sup>d * (A\<^sup>d \<cdot> c)\<close> and \<open>norm += (alpha / alpha_norm)\<^sup>d * (A\<^sup>d \<cdot> ones)\<close>;
  the final value is the element-wise quotient, mapped to the gene identifiers in node order.
\<close>

definition spec_indicator :: "'a graph \<Rightarrow> ('a \<rightharpoonup> int) \<Rightarrow> real list" where
  "spec_indicator G cg = map (\<lambda>n. if n \<in> dom cg then 1 else 0) (nodes G)"

definition spec_dot :: "bool list \<Rightarrow> real list \<Rightarrow> real" where
  "spec_dot row v = (\<Sum>j\<leftarrow>[0..<length v]. (if row ! j then 1 else 0) * v ! j)"

definition spec_score :: "adj_entry list \<Rightarrow> real list \<Rightarrow> real \<Rightarrow> nat \<Rightarrow> real" where
  "spec_score mats c alpha i = (\<Sum>d\<leftarrow>[1..<length mats]. alpha ^ d * spec_dot (the_arr (mats ! d) ! i) c)"

definition spec_norm :: "adj_entry list \<Rightarrow> nat \<Rightarrow> real \<Rightarrow> real \<Rightarrow> nat \<Rightarrow> real" where
  "spec_norm mats n alpha alpha_norm i =
     (\<Sum>d\<leftarrow>[1..<length mats]. (alpha / alpha_norm) ^ d * spec_dot (the_arr (mats ! d) ! i) (replicate n 1))"

definition spec_scores ::
  "'a graph \<Rightarrow> adj_entry list \<Rightarrow> ('a \<rightharpoonup> int) \<Rightarrow> real \<Rightarrow> real \<Rightarrow> ('a \<times> float64) list" where
  "spec_scores G mats cg alpha alpha_norm =
     (let n = length (nodes G); c = spec_indicator G cg
      in zip (nodes G)
           (map (\<lambda>i. true_divide (spec_score mats c alpha i) (spec_norm mats n alpha alpha_norm i))
              [0..<n]))"

text \<open>
  A star: the centre \<open>0\<close> with the 256 leaves \<open>1, \<dots>, 256\<close>, every leaf a causal gene.
\<close>

definition star_graph :: "nat graph" where
  "star_graph = \<lparr>nodes = [0..<257], edges = map (\<lambda>k. (0, k)) [1..<257]\<rparr>"

definition star_causal :: "nat \<rightharpoonup> int" where
  "star_causal = (\<lambda>k. if 1 \<le> k \<and> k < 257 then Some 1 else None)"

section \<open>Properties of the array operations\<close>

lemma fold_set_item_length:
  "length (fold (\<lambda>i R. set_item R i i False) xs M) = length M"
  by (induction xs arbitrary: M) (simp_all add: set_item_def)

lemma fold_set_item_nth:
  "a < length M \<Longrightarrow>
   fold (\<lambda>i R. set_item R i i False) xs M ! a =
     (if a \<in> set xs then (M ! a)[a := False] else M ! a)"
proof (induction xs arbitrary: M)
  case Nil
  then show ?case by simp
next
  case (Cons x xs)
  let ?M = "set_item M x x False"
  have len: "a < length ?M" using Cons.prems by (simp add: set_item_def)
  have step: "?M ! a = (if a = x then (M ! a)[a := False] else M ! a)"
    using Cons.prems by (simp add: set_item_def nth_list_update)
  have "fold (\<lambda>i R. set_item R i i False) (x # xs) M ! a =
        (if a \<in> set xs then (?M ! a)[a := False] else ?M ! a)"
    using Cons.IH [OF len] by simp
  also have "\<dots> = (if a \<in> set (x # xs) then (M ! a)[a := False] else M ! a)"
    by (simp only: step) auto
  finally show ?case .
qed

lemma set_nonzero: "set (nonzero v) = {i. i < length v \<and> v ! i}"
  by (auto simp: nonzero_def)

lemma length_diagonal: "length (diagonal M) = min (length M) (ncols M)"
  by (simp add: diagonal_def)

lemma length_zero_nonzero_diagonal [simp]: "length (zero_nonzero_diagonal M) = length M"
  by (simp add: zero_nonzero_diagonal_def fold_set_item_length)

lemma zero_nonzero_diagonal_nth:
  "a < length M \<Longrightarrow>
   zero_nonzero_diagonal M ! a =
     (if a < ncols M \<and> M ! a ! a then (M ! a)[a := False] else M ! a)"
  by (auto simp: zero_nonzero_diagonal_def fold_set_item_nth set_nonzero diagonal_def)

lemma zero_nonzero_diagonal_eq_setdiag:
  assumes "list_all (\<lambda>r. length r = ncols M) M"
  shows "zero_nonzero_diagonal M = setdiag M False"
proof (rule nth_equalityI)
  show "length (zero_nonzero_diagonal M) = length (setdiag M False)"
    by (simp add: setdiag_def)
next
  fix a assume "a < length (zero_nonzero_diagonal M)"
  then have a: "a < length M" by simp
  then have len: "length (M ! a) = ncols M"
    using assms by (simp add: list_all_length)
  have "(M ! a)[a := False] = M ! a" if "\<not> (a < ncols M \<and> M ! a ! a)"
  proof (cases "a < ncols M")
    case True
    with that have "M ! a ! a = False" by simp
    then show ?thesis by (metis list_update_id)
  next
    case False
    then show ?thesis using len by (simp add: list_update_beyond)
  qed
  then show "zero_nonzero_diagonal M ! a = setdiag M False ! a"
    using a by (simp add: zero_nonzero_diagonal_nth setdiag_def)
qed

lemma ncols_shape_ok: "shape_ok n M \<Longrightarrow> ncols M = n"
  by (cases M) (auto simp: shape_ok_def ncols_def)

lemma shape_ok_zero_nonzero_diagonal:
  "shape_ok n M \<Longrightarrow> shape_ok n (zero_nonzero_diagonal M)"
  by (auto simp: shape_ok_def list_all_length zero_nonzero_diagonal_nth)

lemma zero_nonzero_diagonal_entry:
  assumes "shape_ok n M" "i < n" "j < n"
  shows "zero_nonzero_diagonal M ! i ! j \<longleftrightarrow> M ! i ! j \<and> i \<noteq> j"
proof -
  have "i < length M" "length (M ! i) = n" "ncols M = n"
    using assms ncols_shape_ok [OF assms(1)] by (auto simp: shape_ok_def list_all_length)
  then show ?thesis
    using assms(2,3) by (auto simp: zero_nonzero_diagonal_nth nth_list_update)
qed

lemma shape_ok_matmul:
  "shape_ok n R \<Longrightarrow> shape_ok n A \<Longrightarrow> shape_ok n (matmul R A)"
  using ncols_shape_ok [of n A] by (auto simp: shape_ok_def matmul_def list_all_length)

lemma matmul_entry:
  assumes "shape_ok n R" "shape_ok n A" "i < n" "j < n"
  shows "matmul R A ! i ! j \<longleftrightarrow> (\<exists>k<n. R ! i ! k \<and> A ! k ! j)"
proof -
  have "i < length R" "length A = n" "ncols A = n"
    using assms ncols_shape_ok [OF assms(2)] by (auto simp: shape_ok_def)
  then show ?thesis
    using assms(4) by (auto simp: matmul_def list_ex_iff)
qed


section \<open>Properties of the adjacency power builder\<close>

lemma shape_ok_adjacency:
  "shape_ok (length (nodes G)) (map (\<lambda>u. map (\<lambda>v. has_edge G u v) (nodes G)) (nodes G))"
  by (simp add: shape_ok_def list_all_iff)

lemma zero_nonzero_diagonal_diag:
  "shape_ok n M \<Longrightarrow> i < n \<Longrightarrow> \<not> zero_nonzero_diagonal M ! i ! i"
  by (simp add: zero_nonzero_diagonal_entry)

lemma power_loop_length:
  "length (snd (power_loop ps A (res, mats))) = length mats + length ps"
  by (induction ps arbitrary: res mats) (simp_all add: Let_def)

lemma power_loop_prefix:
  "d < length mats \<Longrightarrow> snd (power_loop ps A (res, mats)) ! d = mats ! d"
  by (induction ps arbitrary: res mats) (simp_all add: Let_def nth_append)

lemma power_loop_inv:
  assumes "shape_ok n A" "shape_ok n res" "mats \<noteq> []"
    and "\<forall>e\<in>set (tl mats). \<exists>M. e = Arr M \<and> shape_ok n M \<and> (\<forall>i<n. \<not> M ! i ! i)"
  shows "\<forall>e\<in>set (tl (snd (power_loop ps A (res, mats)))).
           \<exists>M. e = Arr M \<and> shape_ok n M \<and> (\<forall>i<n. \<not> M ! i ! i)"
  using assms(2-)
proof (induction ps arbitrary: res mats)
  case Nil
  then show ?case by simp
next
  case (Cons p ps)
  let ?res = "zero_nonzero_diagonal (matmul res A)"
  have sh: "shape_ok n (matmul res A)"
    using shape_ok_matmul [OF Cons.prems(1) assms(1)] .
  have 1: "shape_ok n ?res"
    using shape_ok_zero_nonzero_diagonal [OF sh] .
  have 2: "\<forall>i<n. \<not> ?res ! i ! i"
    using zero_nonzero_diagonal_diag [OF sh] by simp
  have 3: "mats @ [Arr ?res] \<noteq> []" by simp
  have 4: "\<forall>e\<in>set (tl (mats @ [Arr ?res])). \<exists>M. e = Arr M \<and> shape_ok n M \<and> (\<forall>i<n. \<not> M ! i ! i)"
    using Cons.prems(2,3) 1 2 by auto
  show ?case
    using Cons.IH [OF 1 3 4] by (simp add: Let_def)
qed

lemma power_loop_rec:
  assumes "mats \<noteq> []" "last mats = Arr res"
    and "length mats \<le> Suc d" "Suc d < length mats + length ps"
  shows "snd (power_loop ps A (res, mats)) ! Suc d =
           Arr (zero_nonzero_diagonal
                  (matmul (case snd (power_loop ps A (res, mats)) ! d of Unused \<Rightarrow> [] | Arr M \<Rightarrow> M) A))"
  using assms
proof (induction ps arbitrary: res mats)
  case Nil
  then show ?case by simp
next
  case (Cons p ps)
  let ?res = "zero_nonzero_diagonal (matmul res A)"
  let ?mats = "mats @ [Arr ?res]"
  have eq: "power_loop (p # ps) A (res, mats) = power_loop ps A (?res, ?mats)"
    by (simp add: Let_def)
  show ?case
  proof (cases "Suc d = length mats")
    case True
    have "snd (power_loop ps A (?res, ?mats)) ! Suc d = ?mats ! Suc d"
      using True by (intro power_loop_prefix) simp
    moreover have "snd (power_loop ps A (?res, ?mats)) ! d = ?mats ! d"
      using True by (intro power_loop_prefix) simp
    moreover have "?mats ! d = Arr res"
    proof -
      have "d = length mats - 1" using True by simp
      then have "mats ! d = last mats" using Cons.prems(1) by (simp add: last_conv_nth)
      then show ?thesis using True Cons.prems(2) by (simp add: nth_append)
    qed
    moreover have "?mats ! Suc d = Arr ?res"
      using True by (simp add: nth_append)
    ultimately show ?thesis unfolding eq by simp
  next
    case False
    have "snd (power_loop ps A (?res, ?mats)) ! Suc d =
           Arr (zero_nonzero_diagonal
                  (matmul (case snd (power_loop ps A (?res, ?mats)) ! d of Unused \<Rightarrow> [] | Arr M \<Rightarrow> M) A))"
      using False Cons.prems(3,4) by (intro Cons.IH) simp_all
    then show ?thesis by (simp only: eq)
  qed
qed


lemma get_adjacency_matrices_unfold:
  assumes "get_adjacency_matrices G d_max = Inr mats"
  defines "A \<equiv> zero_nonzero_diagonal (map (\<lambda>u. map (\<lambda>v. has_edge G u v) (nodes G)) (nodes G))"
  shows "nodes G \<noteq> [] \<and> mats = snd (power_loop [2..d_max] A (A, [Unused, Arr A]))"
  using assms(1)
  by (auto simp: get_adjacency_matrices_def to_scipy_sparse_array_def A_def Let_def
      split: if_splits)

lemma get_adjacency_matrices_length:
  assumes "get_adjacency_matrices G d_max = Inr mats"
  shows "length mats = 2 + nat (d_max - 1)"
  using get_adjacency_matrices_unfold [OF assms] by (simp add: power_loop_length)

lemma get_adjacency_matrices_entries:
  assumes "get_adjacency_matrices G d_max = Inr mats"
  shows "\<forall>e\<in>set (tl mats). \<exists>M. e = Arr M \<and> shape_ok (length (nodes G)) M \<and>
           (\<forall>i<length (nodes G). \<not> M ! i ! i)"
proof -
  let ?n = "length (nodes G)"
  let ?A = "zero_nonzero_diagonal (map (\<lambda>u. map (\<lambda>v. has_edge G u v) (nodes G)) (nodes G))"
  have sh: "shape_ok ?n ?A"
    by (rule shape_ok_zero_nonzero_diagonal [OF shape_ok_adjacency])
  have dg: "\<forall>i<?n. \<not> ?A ! i ! i"
    using zero_nonzero_diagonal_diag [OF shape_ok_adjacency] by blast
  have "\<forall>e\<in>set (tl [Unused, Arr ?A]). \<exists>M. e = Arr M \<and> shape_ok ?n M \<and> (\<forall>i<?n. \<not> M ! i ! i)"
    using sh dg by simp
  from power_loop_inv [OF sh sh _ this, of "[2..d_max]"]
  show ?thesis
    using get_adjacency_matrices_unfold [OF assms] by simp
qed

text \<open>
  C2. Every array that the builder returns for a distance \<open>d\<close> from 1 to \<open>d_max\<close> is an
  \<open>n \<times> n\<close> array whose diagonal is false throughout: the diagonal is cleared after the base
  array and after every product. And on every rectangular array, clearing only the true
  diagonal entries (what the code does) gives the same array as \<^verbatim>\<open>setdiag(0)\<close>, the full
  diagonal clear.
\<close>

theorem builder_zero_diagonal:
  "(get_adjacency_matrices G d_max = Inr mats \<longrightarrow> 1 \<le> d \<longrightarrow> int d \<le> d_max \<longrightarrow>
      (\<exists>M. mats ! d = Arr M \<and> shape_ok (length (nodes G)) M \<and>
           (\<forall>i<length (nodes G). \<not> M ! i ! i)))
   \<and> (list_all (\<lambda>r. length r = ncols R) R \<longrightarrow> zero_nonzero_diagonal R = setdiag R False)"
proof (intro conjI impI)
  assume run: "get_adjacency_matrices G d_max = Inr mats" and d: "1 \<le> d" "int d \<le> d_max"
  have "length mats = 2 + nat (d_max - 1)"
    by (rule get_adjacency_matrices_length [OF run])
  then have "d - 1 < length (tl mats)" using d by simp
  moreover have "tl mats ! (d - 1) = mats ! d"
    using d \<open>d - 1 < length (tl mats)\<close> by (simp add: nth_tl)
  ultimately have "mats ! d \<in> set (tl mats)"
    by (metis nth_mem)
  then show "\<exists>M. mats ! d = Arr M \<and> shape_ok (length (nodes G)) M \<and>
           (\<forall>i<length (nodes G). \<not> M ! i ! i)"
    using get_adjacency_matrices_entries [OF run] by blast
next
  assume "list_all (\<lambda>r. length r = ncols R) R"
  then show "zero_nonzero_diagonal R = setdiag R False"
    by (rule zero_nonzero_diagonal_eq_setdiag)
qed

lemma path3_run: "get_adjacency_matrices path3 2 = Inr path3_powers"
  by code_simp

theorem builder_zero_diagonal_witness:
  "get_adjacency_matrices path3 2 = Inr path3_powers \<and> (1::nat) \<le> 2 \<and> int 2 \<le> 2
   \<and> (\<exists>M. path3_powers ! 2 = Arr M \<and> shape_ok (length (nodes path3)) M \<and>
           (\<forall>i<length (nodes path3). \<not> M ! i ! i))
   \<and> list_all (\<lambda>r. length r = ncols [[True, True], [False, True]]) [[True, True], [False, True]]
   \<and> zero_nonzero_diagonal [[True, True], [False, True]] = setdiag [[True, True], [False, True]] False"
proof -
  have rect: "list_all (\<lambda>r. length r = ncols [[True, True], [False, True]]) [[True, True], [False, True]]"
    by (simp add: ncols_def)
  show ?thesis
    using builder_zero_diagonal [of path3 2 path3_powers 2 "[[True, True], [False, True]]"]
      path3_run rect
    by simp
qed


lemma builder_first_power:
  assumes "get_adjacency_matrices G d_max = Inr mats"
  shows "mats ! 1 =
           Arr (zero_nonzero_diagonal (map (\<lambda>u. map (\<lambda>v. has_edge G u v) (nodes G)) (nodes G)))"
proof -
  let ?A = "zero_nonzero_diagonal (map (\<lambda>u. map (\<lambda>v. has_edge G u v) (nodes G)) (nodes G))"
  have "mats = snd (power_loop [2..d_max] ?A (?A, [Unused, Arr ?A]))"
    using get_adjacency_matrices_unfold [OF assms] by simp
  then show ?thesis
    by (simp add: power_loop_prefix)
qed

lemma first_power_entry:
  assumes "i < length (nodes G)" "j < length (nodes G)"
  shows "zero_nonzero_diagonal (map (\<lambda>u. map (\<lambda>v. has_edge G u v) (nodes G)) (nodes G)) ! i ! j
         \<longleftrightarrow> i \<noteq> j \<and> has_edge G (nodes G ! i) (nodes G ! j)"
  using zero_nonzero_diagonal_entry [OF shape_ok_adjacency assms] assms by auto

lemma builder_returns:
  "nodes G \<noteq> [] \<Longrightarrow> \<exists>mats. get_adjacency_matrices G d_max = Inr mats"
  by (simp add: get_adjacency_matrices_def to_scipy_sparse_array_def Let_def)

text \<open>
  C6 as stated fails: on a graph with one node, \<open>d_max = 0\<close> is accepted and the builder
  returns the placeholder and the first array.
\<close>

theorem builder_accepts_d_max_zero_counterexample:
  "(0::int) < 1 \<and> get_adjacency_matrices single_node 0 = Inr [Unused, Arr [[False]]]"
  by code_simp

text \<open>
  C6 as the code has it. The builder fails exactly when the graph has no nodes: the
  conversion to a sparse array, the first array operation, raises \<^verbatim>\<open>NetworkXError\<close>,
  whatever \<open>d_max\<close> is. \<open>d_max\<close> is not checked: below 1 the loop
  \<^verbatim>\<open>range(2, d_max + 1)\<close> is empty, and the result is the result for \<open>d_max = 1\<close>, the
  placeholder followed by the first array.
\<close>

theorem builder_validation:
  "(nodes G = [] \<longrightarrow> get_adjacency_matrices G d_max = Inl NetworkXError)
   \<and> (nodes G \<noteq> [] \<longrightarrow> d_max < 1 \<longrightarrow>
        get_adjacency_matrices G d_max = get_adjacency_matrices G 1
        \<and> (\<exists>A. get_adjacency_matrices G d_max = Inr [Unused, Arr A]))"
  by (simp add: get_adjacency_matrices_def to_scipy_sparse_array_def Let_def)

theorem builder_validation_witness:
  "nodes empty_graph = [] \<and> get_adjacency_matrices empty_graph 5 = Inl NetworkXError
   \<and> nodes single_node \<noteq> [] \<and> (0::int) < 1
   \<and> get_adjacency_matrices single_node 0 = get_adjacency_matrices single_node 1
   \<and> (\<exists>A. get_adjacency_matrices single_node 0 = Inr [Unused, Arr A])"
proof -
  have e: "nodes empty_graph = []" by (simp add: empty_graph_def)
  have s: "nodes single_node \<noteq> []" by (simp add: single_node_def)
  have z: "(0::int) < 1" by simp
  show ?thesis
    using builder_validation [of empty_graph 5] builder_validation [of single_node 0] e s z
    by blast
qed

lemma builder_entries:
  assumes run: "get_adjacency_matrices G d_max = Inr mats"
    and n: "n = length (nodes G)" and ij: "i < n" "j < n"
  shows "(the_arr (mats ! 1) ! i ! j \<longleftrightarrow> i \<noteq> j \<and> has_edge G (nodes G ! i) (nodes G ! j))
       \<and> (\<forall>d. 1 \<le> d \<and> int d < d_max \<longrightarrow>
            (the_arr (mats ! Suc d) ! i ! j \<longleftrightarrow>
               i \<noteq> j \<and> (\<exists>k<n. the_arr (mats ! d) ! i ! k \<and> the_arr (mats ! 1) ! k ! j)))"
proof (intro conjI allI impI)
  let ?adj = "map (\<lambda>u. map (\<lambda>v. has_edge G u v) (nodes G)) (nodes G)"
  let ?A = "zero_nonzero_diagonal ?adj"
  have mats: "mats = snd (power_loop [2..d_max] ?A (?A, [Unused, Arr ?A]))"
    using get_adjacency_matrices_unfold [OF run] by simp
  have m1: "mats ! 1 = Arr ?A"
    unfolding mats by (subst power_loop_prefix) simp_all
  then have m1': "mats ! Suc 0 = Arr ?A" by simp
  have shA: "shape_ok n ?A"
    unfolding n by (rule shape_ok_zero_nonzero_diagonal [OF shape_ok_adjacency])
  have base: "?A ! i ! j \<longleftrightarrow> i \<noteq> j \<and> has_edge G (nodes G ! i) (nodes G ! j)"
    using zero_nonzero_diagonal_entry [OF shape_ok_adjacency, of i G j] ij n by auto
  show "the_arr (mats ! 1) ! i ! j \<longleftrightarrow> i \<noteq> j \<and> has_edge G (nodes G ! i) (nodes G ! j)"
    using base by (simp add: m1' the_arr_def)
  fix d assume d: "1 \<le> d \<and> int d < d_max"
  have len: "length mats = 2 + nat (d_max - 1)"
    by (rule get_adjacency_matrices_length [OF run])
  have dd: "d < Suc (nat (d_max - 1))" using d by linarith
  have "d - 1 < length (tl mats)" using d dd len by simp
  moreover have "tl mats ! (d - 1) = mats ! d"
    using d \<open>d - 1 < length (tl mats)\<close> by (simp add: nth_tl)
  ultimately have "mats ! d \<in> set (tl mats)" by (metis nth_mem)
  then obtain M where M: "mats ! d = Arr M" "shape_ok n M"
    using get_adjacency_matrices_entries [OF run] n by blast
  have "mats ! Suc d = Arr (zero_nonzero_diagonal
          (matmul (case mats ! d of Unused \<Rightarrow> [] | Arr M \<Rightarrow> M) ?A))"
    unfolding mats using d dd by (intro power_loop_rec) simp_all
  then have next_arr: "the_arr (mats ! Suc d) = zero_nonzero_diagonal (matmul M ?A)"
    by (simp add: M(1) the_arr_def)
  have "zero_nonzero_diagonal (matmul M ?A) ! i ! j \<longleftrightarrow> matmul M ?A ! i ! j \<and> i \<noteq> j"
    by (rule zero_nonzero_diagonal_entry [OF shape_ok_matmul [OF M(2) shA] ij])
  also have "matmul M ?A ! i ! j \<longleftrightarrow> (\<exists>k<n. M ! i ! k \<and> ?A ! k ! j)"
    by (rule matmul_entry [OF M(2) shA ij])
  finally have fin: "zero_nonzero_diagonal (matmul M ?A) ! i ! j \<longleftrightarrow>
       (\<exists>k<n. M ! i ! k \<and> ?A ! k ! j) \<and> i \<noteq> j" .
  have a1: "the_arr (mats ! d) = M" by (simp add: M(1) the_arr_def)
  have a2: "the_arr (mats ! 1) = ?A" by (simp add: m1' the_arr_def)
  show "the_arr (mats ! Suc d) ! i ! j \<longleftrightarrow>
       i \<noteq> j \<and> (\<exists>k<n. the_arr (mats ! d) ! i ! k \<and> the_arr (mats ! 1) ! k ! j)"
    unfolding next_arr a1 a2 using fin by blast
qed


lemma builder_entry_walk:
  assumes run: "get_adjacency_matrices G d_max = Inr mats"
    and n: "n = length (nodes G)" and i: "i < n"
  shows "1 \<le> d \<Longrightarrow> int d \<le> d_max \<Longrightarrow> j < n \<Longrightarrow> the_arr (mats ! d) ! i ! j \<Longrightarrow> walk G d i j"
proof (induction d arbitrary: j)
  case 0
  then show ?case by simp
next
  case (Suc d)
  show ?case
  proof (cases "d = 0")
    case True
    then have "the_arr (mats ! 1) ! i ! j" using Suc.prems(4) by simp
    then have "has_edge G (nodes G ! i) (nodes G ! j)"
      using builder_entries [OF run n i Suc.prems(3)] by blast
    then have "walk G 0 i i \<and> has_edge G (nodes G ! i) (nodes G ! j)" by simp
    then show ?thesis
      using True i n by (auto simp: list_ex_iff)
  next
    case False
    then have d: "1 \<le> d \<and> int d < d_max" using Suc.prems(2) by simp
    then obtain k where k: "k < n" "the_arr (mats ! d) ! i ! k" "the_arr (mats ! 1) ! k ! j"
      using builder_entries [OF run n i Suc.prems(3)] Suc.prems(4) by blast
    have "walk G d i k"
      using d k(1,2) by (intro Suc.IH) simp_all
    moreover have "has_edge G (nodes G ! k) (nodes G ! j)"
      using builder_entries [OF run n k(1) Suc.prems(3)] k(3) by blast
    ultimately show ?thesis
      using k(1) n by (auto simp: list_ex_iff)
  qed
qed

lemma edge2_run:
  "get_adjacency_matrices edge2 3 =
     Inr [Unused, Arr [[False, True], [True, False]],
          Arr [[False, False], [False, False]], Arr [[False, False], [False, False]]]"
  by code_simp

lemma edge2_walk: "walk edge2 3 0 1"
  by code_simp

text \<open>
  What holds of the arrays of the builder. They hold booleans (\<^verbatim>\<open>dtype=bool\<close> from the
  conversion on), never counts: off the diagonal the first array says whether the two nodes
  are joined by an edge, and the array for distance \<open>d + 1\<close> says whether some \<open>k\<close> has a
  true entry \<open>(i, k)\<close> at distance \<open>d\<close> and a true entry \<open>(k, j)\<close> in the first array, however
  many such \<open>k\<close> there are. A true entry at distance \<open>d\<close> stands for a walk of length \<open>d\<close>
  between the two nodes. The converse fails, as the theorem after this one shows.
\<close>

theorem builder_boolean_powers:
  assumes run: "get_adjacency_matrices G d_max = Inr mats"
    and n: "n = length (nodes G)" and ij: "i < n" "j < n"
  shows "(the_arr (mats ! 1) ! i ! j \<longleftrightarrow> i \<noteq> j \<and> has_edge G (nodes G ! i) (nodes G ! j))
       \<and> (\<forall>d. 1 \<le> d \<and> int d < d_max \<longrightarrow>
            (the_arr (mats ! Suc d) ! i ! j \<longleftrightarrow>
               i \<noteq> j \<and> (\<exists>k<n. the_arr (mats ! d) ! i ! k \<and> the_arr (mats ! 1) ! k ! j)))
       \<and> (\<forall>d. 1 \<le> d \<and> int d \<le> d_max \<longrightarrow> the_arr (mats ! d) ! i ! j \<longrightarrow> walk G d i j)"
  using builder_entries [OF run n ij] builder_entry_walk [OF run n ij(1) _ _ ij(2)]
  by blast

theorem builder_boolean_powers_witness:
  "get_adjacency_matrices path3 2 = Inr path3_powers \<and> 3 = length (nodes path3)
   \<and> (0::nat) < 3 \<and> (2::nat) < 3 \<and> (1::nat) \<le> 1 \<and> int 1 < 2 \<and> (1::nat) \<le> 2 \<and> int 2 \<le> 2
   \<and> (the_arr (path3_powers ! 1) ! 0 ! 2 \<longleftrightarrow>
         (0::nat) \<noteq> 2 \<and> has_edge path3 (nodes path3 ! 0) (nodes path3 ! 2))
   \<and> (the_arr (path3_powers ! Suc 1) ! 0 ! 2 \<longleftrightarrow>
         (0::nat) \<noteq> 2 \<and> (\<exists>k<3. the_arr (path3_powers ! 1) ! 0 ! k \<and> the_arr (path3_powers ! 1) ! k ! 2))
   \<and> \<not> the_arr (path3_powers ! 1) ! 0 ! 2
   \<and> the_arr (path3_powers ! 2) ! 0 ! 2
   \<and> walk path3 2 0 2"
proof -
  have n: "3 = length (nodes path3)" by (simp add: path3_def)
  have i: "(0::nat) < 3" and j: "(2::nat) < 3" by simp_all
  have d: "(1::nat) \<le> 1 \<and> int 1 < 2" and d2: "(1::nat) \<le> 2 \<and> int 2 \<le> 2" by simp_all
  have v: "\<not> the_arr (path3_powers ! 1) ! 0 ! 2" "the_arr (path3_powers ! 2) ! 0 ! 2"
    by (simp_all add: path3_powers_def the_arr_def)
  have step: "the_arr (path3_powers ! Suc 1) ! 0 ! 2 \<longleftrightarrow>
         (0::nat) \<noteq> 2 \<and> (\<exists>k<3. the_arr (path3_powers ! 1) ! 0 ! k \<and> the_arr (path3_powers ! 1) ! k ! 2)"
    using builder_boolean_powers [OF path3_run n i j] d by blast
  have base: "the_arr (path3_powers ! 1) ! 0 ! 2 \<longleftrightarrow>
         (0::nat) \<noteq> 2 \<and> has_edge path3 (nodes path3 ! 0) (nodes path3 ! 2)"
    using builder_boolean_powers [OF path3_run n i j] by blast
  have w: "walk path3 2 0 2"
    using builder_boolean_powers [OF path3_run n i j] d2 v(2) by blast
  show ?thesis
    using path3_run n i j d d2 base step v w by blast
qed

text \<open>
  C9 fails on the code. The entries are booleans and every product is an or of ands, but an
  entry is not the indicator of a walk of that length. The loop clears the diagonal of each
  product and multiplies the cleared array on, so every walk that comes back to its first
  node is lost, and the array at index \<open>i\<close> is not \<open>A**i\<close> with a cleared diagonal, which the
  docstring says it is. On the path \<open>A \<midarrow> B \<midarrow> C\<close> with \<open>d_max = 3\<close> the array at index 3 has
  false entries from \<open>B\<close> to \<open>A\<close> and from \<open>B\<close> to \<open>C\<close>, though \<open>B, A, B, A\<close> is a walk of length 3
  and the array of the docstring has both entries true. On the graph of one edge the
  arrays at index 2 and 3 are false throughout, though \<open>A, B, A, B\<close> is a walk of length 3.
\<close>

theorem diagonal_clear_prunes_walks:
  "to_scipy_sparse_array path3 =
     Inr [[False, True, False], [True, False, True], [False, True, False]]
   \<and> get_adjacency_matrices path3 3 =
     Inr (path3_powers @ [Arr [[False, True, False], [False, False, False], [False, True, False]]])
   \<and> walk path3 3 1 0
   \<and> docstring_array [[False, True, False], [True, False, True], [False, True, False]] 3 =
     [[False, True, False], [True, False, True], [False, True, False]]
   \<and> get_adjacency_matrices edge2 3 =
     Inr [Unused, Arr [[False, True], [True, False]],
          Arr [[False, False], [False, False]], Arr [[False, False], [False, False]]]
   \<and> walk edge2 3 0 1"
  by code_simp


section \<open>Properties of the scorer\<close>

lemma length_causal_loop [simp]: "length (causal_loop ns cg ni vec) = length vec"
  by (induction ns arbitrary: ni vec) simp_all

lemma causal_loop_nth:
  "k < length vec \<Longrightarrow>
   causal_loop ns cg ni vec ! k =
     (if ni \<le> k \<and> k < ni + length ns \<and> cg (ns ! (k - ni)) \<noteq> None then 1 else vec ! k)"
proof (induction ns arbitrary: ni vec)
  case Nil
  then show ?case by (cases "ni \<le> k") simp_all
next
  case (Cons n ns)
  let ?vec = "if cg n \<noteq> None then vec[ni := 1] else vec"
  have len: "k < length ?vec" using Cons.prems by simp
  have nth: "?vec ! k = (if k = ni \<and> cg n \<noteq> None then 1 else vec ! k)"
    using Cons.prems by (cases "k = ni") simp_all
  show ?case
  proof (cases "k = ni")
    case True
    then show ?thesis using Cons.IH [OF len, of "ni + 1"] nth by simp
  next
    case False
    then have "(n # ns) ! (k - ni) = ns ! (k - (ni + 1))" if "ni \<le> k"
      using that by (simp add: nth_Cons')
    then show ?thesis using Cons.IH [OF len, of "ni + 1"] nth False by auto
  qed
qed

lemma causal_genes_vec_eq:
  "causal_genes_vec G cg = map (\<lambda>n. if cg n \<noteq> None then 1 else 0) (nodes G)"
  by (rule nth_equalityI) (simp_all add: causal_genes_vec_def causal_loop_nth)

lemma powers_okD:
  assumes "powers_ok n mats" "1 \<le> d" "d < length mats"
  shows "\<exists>A. mats ! d = Arr A \<and> shape_ok n A"
proof -
  have "d - 1 < length (tl mats)" using assms(2,3) by simp
  moreover have "tl mats ! (d - 1) = mats ! d"
    using assms(2,3) by (simp add: nth_tl)
  moreover have "\<forall>k<length (tl mats). case tl mats ! k of Unused \<Rightarrow> False | Arr A \<Rightarrow> shape_ok n A"
    using assms(1) unfolding powers_ok_def list_all_length .
  ultimately have "case mats ! d of Unused \<Rightarrow> False | Arr A \<Rightarrow> shape_ok n A"
    by metis
  then show ?thesis by (cases "mats ! d") simp_all
qed

lemma score_step_ok:
  assumes A: "mats ! d = Arr A" "shape_ok n A"
    and len: "length c = n" "length ones = n" "length s = n" "length nr = n"
    and nz: "alpha_norm \<noteq> 0"
  shows "score_step mats c ones alpha alpha_norm d (s, nr) =
           Inr (map (\<lambda>i. s ! i + score_term mats c alpha i d) [0..<n],
                map (\<lambda>i. nr ! i + norm_term mats ones alpha alpha_norm i d) [0..<n])"
proof -
  have nc: "ncols A = n" and lenA: "length A = n"
    using A(2) ncols_shape_ok by (auto simp: shape_ok_def)
  have s: "map2 (+) s (map (\<lambda>w. alpha ^ d * real (unat w)) (map (\<lambda>row. row_dot_uint8 row c) A))
         = map (\<lambda>i. s ! i + score_term mats c alpha i d) [0..<n]"
    using lenA len by (intro nth_equalityI) (simp_all add: score_term_def A(1) the_arr_def)
  have nr: "map2 (+) nr (map (\<lambda>x. (alpha / alpha_norm) ^ d * x) (map (\<lambda>row. row_dot_float64 row ones) A))
         = map (\<lambda>i. nr ! i + norm_term mats ones alpha alpha_norm i d) [0..<n]"
    using lenA len by (intro nth_equalityI) (simp_all add: norm_term_def A(1) the_arr_def)
  show ?thesis
    using s nr nz
    by (simp add: score_step_def A(1) dot_uint8_def dot_float64_def nc len lenA iadd_def)
qed

lemma score_loop_ok:
  assumes ok: "powers_ok n mats"
    and ds: "\<forall>d\<in>set ds. 1 \<le> d \<and> d < length mats"
    and len: "length c = n" "length ones = n" "length s = n" "length nr = n"
    and nz: "alpha_norm \<noteq> 0"
  shows "score_loop ds mats c ones alpha alpha_norm (s, nr) =
           Inr (map (\<lambda>i. s ! i + (\<Sum>d\<leftarrow>ds. score_term mats c alpha i d)) [0..<n],
                map (\<lambda>i. nr ! i + (\<Sum>d\<leftarrow>ds. norm_term mats ones alpha alpha_norm i d)) [0..<n])"
  using ds len(3,4)
proof (induction ds arbitrary: s nr)
  case Nil
  have "map ((!) s) [0..<length s] = s" "map ((!) nr) [0..<length nr] = nr"
    by (rule map_nth)+
  then have "map ((!) s) [0..<n] = s" "map ((!) nr) [0..<n] = nr"
    using Nil.prems(2,3) by simp_all
  then show ?case by simp
next
  case (Cons d ds)
  obtain A where A: "mats ! d = Arr A" "shape_ok n A"
    using powers_okD [OF ok, of d] Cons.prems(1) by auto
  let ?s = "map (\<lambda>i. s ! i + score_term mats c alpha i d) [0..<n]"
  let ?nr = "map (\<lambda>i. nr ! i + norm_term mats ones alpha alpha_norm i d) [0..<n]"
  have step: "score_step mats c ones alpha alpha_norm d (s, nr) = Inr (?s, ?nr)"
    using score_step_ok [OF A len(1,2) Cons.prems(2,3) nz] .
  have IH: "score_loop ds mats c ones alpha alpha_norm (?s, ?nr) =
           Inr (map (\<lambda>i. ?s ! i + (\<Sum>d\<leftarrow>ds. score_term mats c alpha i d)) [0..<n],
                map (\<lambda>i. ?nr ! i + (\<Sum>d\<leftarrow>ds. norm_term mats ones alpha alpha_norm i d)) [0..<n])"
    using Cons.prems(1) by (intro Cons.IH) simp_all
  show ?case
    by (simp add: step IH add.assoc)
qed

lemma update_fresh: "k \<notin> fst ` set al \<Longrightarrow> AList.update k v al = al @ [(k, v)]"
  by (induction al) auto

lemma fold_update_distinct:
  "distinct (map fst (acc @ ps)) \<Longrightarrow>
   fold (\<lambda>(k, v) d. AList.update k v d) ps acc = acc @ ps"
proof (induction ps arbitrary: acc)
  case Nil
  then show ?case by simp
next
  case (Cons p ps)
  obtain k v where p: "p = (k, v)" by (cases p)
  have fresh: "k \<notin> fst ` set acc" using Cons.prems p by auto
  have "distinct (map fst ((acc @ [(k, v)]) @ ps))" using Cons.prems p by simp
  from Cons.IH [OF this] show ?case by (simp add: p update_fresh [OF fresh])
qed

lemma dict_distinct: "distinct (map fst ps) \<Longrightarrow> dict ps = ps"
  using fold_update_distinct [of "[]" ps] by (simp add: dict_def)

lemma fold_update_keys:
  "fst ` set (fold (\<lambda>(k, v) d. AList.update k v d) ps acc) = fst ` set acc \<union> fst ` set ps"
proof (induction ps arbitrary: acc)
  case Nil
  then show ?case by simp
next
  case (Cons p ps)
  obtain k v where p: "p = (k, v)" by (cases p)
  show ?case by (simp add: p Cons.IH dom_update)
qed

lemma fold_update_distinct_keys:
  "distinct (map fst acc) \<Longrightarrow>
   distinct (map fst (fold (\<lambda>(k, v) d. AList.update k v d) ps acc))"
proof (induction ps arbitrary: acc)
  case Nil
  then show ?case by simp
next
  case (Cons p ps)
  obtain k v where p: "p = (k, v)" by (cases p)
  show ?case using Cons.prems by (simp add: p Cons.IH distinct_update)
qed

lemma dict_keys: "fst ` set (dict ps) = fst ` set ps"
  by (simp add: dict_def fold_update_keys)

lemma dict_distinct_keys: "distinct (map fst (dict ps))"
  by (simp add: dict_def fold_update_distinct_keys)

lemma iadd_length: "iadd acc r = Inr acc' \<Longrightarrow> length acc' = length acc"
  by (auto simp: iadd_def split: if_splits)

lemma score_step_length:
  assumes "score_step mats c ones alpha alpha_norm d (s, nr) = Inr (s', nr')"
  shows "length s' = length s \<and> length nr' = length nr"
  using assms
  by (auto simp: score_step_def split: adj_entry.splits sum.splits if_splits dest: iadd_length)

lemma score_loop_length:
  "score_loop ds mats c ones alpha alpha_norm (s, nr) = Inr (s', nr') \<Longrightarrow>
   length s' = length s \<and> length nr' = length nr"
proof (induction ds arbitrary: s nr)
  case Nil
  then show ?case by simp
next
  case (Cons d ds)
  then obtain s1 nr1 where
    step: "score_step mats c ones alpha alpha_norm d (s, nr) = Inr (s1, nr1)"
    and rest: "score_loop ds mats c ones alpha alpha_norm (s1, nr1) = Inr (s', nr')"
    by (auto split: sum.splits)
  show ?case
    using score_step_length [OF step] Cons.IH [OF rest] by simp
qed


lemma builder_powers_ok:
  assumes "get_adjacency_matrices G d_max = Inr mats"
  shows "powers_ok (length (nodes G)) mats"
  unfolding powers_ok_def list_all_iff
proof
  fix e assume "e \<in> set (tl mats)"
  then obtain M where "e = Arr M" "shape_ok (length (nodes G)) M"
    using get_adjacency_matrices_entries [OF assms] by blast
  then show "case e of Unused \<Rightarrow> False | Arr A \<Rightarrow> shape_ok (length (nodes G)) A" by simp
qed

lemma accumulate_scores_ok:
  assumes "powers_ok n mats" "n = length (nodes G)" "alpha_norm \<noteq> 0"
  shows "accumulate_scores G mats cg alpha alpha_norm =
           Inr (map (node_score_sum mats (causal_genes_vec G cg) alpha) [0..<n],
                map (node_norm_sum mats n alpha alpha_norm) [0..<n])"
proof -
  let ?c = "causal_genes_vec G cg"
  have lc: "length ?c = n" using assms(2) by (simp add: causal_genes_vec_def)
  have ds: "\<forall>d\<in>set [1..<length mats]. 1 \<le> d \<and> d < length mats" by simp
  have "score_loop [1..<length mats] mats ?c (replicate n 1) alpha alpha_norm
          (replicate n 0, replicate n 0) =
        Inr (map (\<lambda>i. replicate n 0 ! i + (\<Sum>d\<leftarrow>[1..<length mats]. score_term mats ?c alpha i d)) [0..<n],
             map (\<lambda>i. replicate n 0 ! i +
                (\<Sum>d\<leftarrow>[1..<length mats]. norm_term mats (replicate n 1) alpha alpha_norm i d)) [0..<n])"
    by (rule score_loop_ok [OF assms(1) ds lc _ _ _ assms(3)]) simp_all
  then show ?thesis
    by (simp add: accumulate_scores_def Let_def lc node_score_sum_def node_norm_sum_def
        cong: map_cong)
qed

lemma calculate_scores_ok:
  assumes "powers_ok n mats" "n = length (nodes G)" "alpha_norm \<noteq> 0" "distinct (nodes G)"
  shows "calculate_scores G mats cg alpha alpha_norm =
           Inr (map (\<lambda>i. (nodes G ! i,
                           true_divide (node_score_sum mats (causal_genes_vec G cg) alpha i)
                                       (node_norm_sum mats n alpha alpha_norm i))) [0..<n])"
proof -
  let ?f = "node_score_sum mats (causal_genes_vec G cg) alpha"
  let ?g = "node_norm_sum mats n alpha alpha_norm"
  let ?z = "zip (nodes G) (map2 true_divide (map ?f [0..<n]) (map ?g [0..<n]))"
  have z: "?z = map (\<lambda>i. (nodes G ! i, true_divide (?f i) (?g i))) [0..<n]"
    using assms(2) by (intro nth_equalityI) simp_all
  have "map fst ?z = nodes G"
    using assms(2) by (intro nth_equalityI) simp_all
  then have "dict ?z = ?z"
    using assms(4) by (intro dict_distinct) simp
  then show ?thesis
    using z by (simp add: calculate_scores_def accumulate_scores_ok [OF assms(1-3)])
qed


subsection \<open>The diagnostic loop\<close>

lemma contributions_step_ok:
  assumes A: "mats ! d = Arr A" "shape_ok n A"
    and len: "length c = n" "length ones = n" "length s = n" "length nr = n"
    and nz: "alpha_norm \<noteq> 0"
  shows "contributions_step mats c ones alpha alpha_norm d (s, nr, files) =
           Inr (map (\<lambda>i. s ! i + score_term mats c alpha i d) [0..<n],
                map (\<lambda>i. nr ! i + norm_term mats ones alpha alpha_norm i d) [0..<n],
                files @ [(d, map (\<lambda>i. score_term mats c alpha i d) [0..<n],
                            map (\<lambda>i. norm_term mats ones alpha alpha_norm i d) [0..<n])])"
proof -
  have nc: "ncols A = n" and lenA: "length A = n"
    using A(2) ncols_shape_ok by (auto simp: shape_ok_def)
  let ?st = "map (\<lambda>w. alpha ^ d * real (unat w)) (map (\<lambda>row. row_dot_uint8 row c) A)"
  let ?nt = "map (\<lambda>x. (alpha / alpha_norm) ^ d * x) (map (\<lambda>row. row_dot_float64 row ones) A)"
  have st: "?st = map (\<lambda>i. score_term mats c alpha i d) [0..<n]"
    using lenA by (intro nth_equalityI) (simp_all add: score_term_def A(1) the_arr_def)
  have nt: "?nt = map (\<lambda>i. norm_term mats ones alpha alpha_norm i d) [0..<n]"
    using lenA by (intro nth_equalityI) (simp_all add: norm_term_def A(1) the_arr_def)
  have i1: "iadd s (map (\<lambda>i. score_term mats c alpha i d) [0..<n]) =
              Inr (map (\<lambda>i. s ! i + score_term mats c alpha i d) [0..<n])"
    using len by (simp add: iadd_def) (intro nth_equalityI, simp_all)
  have i2: "iadd nr (map (\<lambda>i. norm_term mats ones alpha alpha_norm i d) [0..<n]) =
              Inr (map (\<lambda>i. nr ! i + norm_term mats ones alpha alpha_norm i d) [0..<n])"
    using len by (simp add: iadd_def) (intro nth_equalityI, simp_all)
  show ?thesis
    using nz st nt
    by (simp add: contributions_step_def A(1) dot_uint8_def dot_float64_def nc len i1 i2 Let_def)
qed

lemma contributions_loop_ok:
  assumes ok: "powers_ok n mats"
    and ds: "\<forall>d\<in>set ds. 1 \<le> d \<and> d < length mats"
    and len: "length c = n" "length ones = n" "length s = n" "length nr = n"
    and nz: "alpha_norm \<noteq> 0"
  shows "contributions_loop ds mats c ones alpha alpha_norm (s, nr, files) =
           (None, files @ map (\<lambda>d. (d, map (\<lambda>i. score_term mats c alpha i d) [0..<n],
                                       map (\<lambda>i. norm_term mats ones alpha alpha_norm i d) [0..<n])) ds)"
  using ds len(3,4)
proof (induction ds arbitrary: s nr files)
  case Nil
  then show ?case by simp
next
  case (Cons d ds)
  obtain A where A: "mats ! d = Arr A" "shape_ok n A"
    using powers_okD [OF ok, of d] Cons.prems(1) by auto
  let ?s = "map (\<lambda>i. s ! i + score_term mats c alpha i d) [0..<n]"
  let ?nr = "map (\<lambda>i. nr ! i + norm_term mats ones alpha alpha_norm i d) [0..<n]"
  let ?f = "files @ [(d, map (\<lambda>i. score_term mats c alpha i d) [0..<n],
                            map (\<lambda>i. norm_term mats ones alpha alpha_norm i d) [0..<n])]"
  have step: "contributions_step mats c ones alpha alpha_norm d (s, nr, files) = Inr (?s, ?nr, ?f)"
    using contributions_step_ok [OF A len(1,2) Cons.prems(2,3) nz] .
  have IH: "contributions_loop ds mats c ones alpha alpha_norm (?s, ?nr, ?f) =
           (None, ?f @ map (\<lambda>d. (d, map (\<lambda>i. score_term mats c alpha i d) [0..<n],
                                       map (\<lambda>i. norm_term mats ones alpha alpha_norm i d) [0..<n])) ds)"
    using Cons.prems(1) by (intro Cons.IH) simp_all
  show ?case
    by (simp add: step IH)
qed


subsection \<open>Runs on the example graphs\<close>

lemma iso3_run: "get_adjacency_matrices iso3 1 = Inr iso3_powers"
  by code_simp

lemma path3_cgv: "causal_genes_vec path3 [''A'' \<mapsto> 1] = [1, 0, 0]"
  by (simp add: causal_genes_vec_def path3_def)

lemma upt_1_3: "[1..<3] = [1, 2]" "[1..<2] = [1]" "[0..<3] = [0,1,2]"
  by (simp_all add: upt_rec)

lemma path3_acc: "accumulate_scores path3 path3_powers [''A'' \<mapsto> 1] (1/2) 1 = Inr ([0, 1/2, 1/4], [3/4, 1, 3/4])"
  by (simp add: accumulate_scores_def path3_cgv path3_powers_def upt_1_3 score_step_def
      dot_uint8_def dot_float64_def row_dot_uint8_def row_dot_float64_def ncols_def iadd_def
      power2_eq_square)

lemma path3_scores:
  "calculate_scores path3 path3_powers [''A'' \<mapsto> 1] (1/2) 1 =
     Inr [(''A'', Finite 0), (''B'', Finite (1/2)), (''C'', Finite (1/3))]"
  by (simp add: calculate_scores_def path3_acc) (simp add: true_divide_def dict_def path3_def)

lemma iso3_acc: "accumulate_scores iso3 iso3_powers [''A'' \<mapsto> 1] (1/2) 1 = Inr ([0, 1/2, 0], [1/2, 1/2, 0])"
  by (simp add: accumulate_scores_def causal_genes_vec_def iso3_def iso3_powers_def upt_1_3 score_step_def
      dot_uint8_def dot_float64_def row_dot_uint8_def row_dot_float64_def ncols_def iadd_def)

lemma iso3_scores:
  "calculate_scores iso3 iso3_powers [''A'' \<mapsto> 1] (1/2) 1 =
     Inr [(''A'', Finite 0), (''B'', Finite 1), (''C'', NaN)]"
  by (simp add: calculate_scores_def iso3_acc) (simp add: true_divide_def dict_def iso3_def)


lemma path3_powers_ok: "powers_ok 3 path3_powers"
  by (simp add: powers_ok_def path3_powers_def shape_ok_def)

lemma iso3_powers_ok: "powers_ok 3 iso3_powers"
  by (simp add: powers_ok_def iso3_powers_def shape_ok_def)

section \<open>The claims about the scorer\<close>

text \<open>
  C3. For the same graph, power sequence, causal genes, \<open>alpha\<close> and \<open>alpha_norm\<close> (a
  sequence of \<open>n \<times> n\<close> arrays and a non-zero \<open>alpha_norm\<close>, so that the loops run through),
  the diagnostic mode writes one pair of vectors for each distance from 1 to the last, and
  the sum of the score contributions is the \<^verbatim>\<open>scores_vec\<close> that the scoring mode holds
  before its division, the sum of the normalisation contributions its
  \<^verbatim>\<open>norm_factors_vec\<close>.
\<close>

theorem contributions_sum_to_scores:
  assumes "powers_ok n mats" "n = length (nodes G)" "alpha_norm \<noteq> 0"
  shows "\<exists>files scores_vec norm_factors_vec.
           calculate_contributions G mats cg alpha d_max alpha_norm patho = (None, files)
         \<and> accumulate_scores G mats cg alpha alpha_norm = Inr (scores_vec, norm_factors_vec)
         \<and> map fst files = [1..<length mats]
         \<and> sum_vectors n (map (\<lambda>f. fst (snd f)) files) = scores_vec
         \<and> sum_vectors n (map (\<lambda>f. snd (snd f)) files) = norm_factors_vec"
proof -
  let ?c = "causal_genes_vec G cg"
  let ?files = "map (\<lambda>d. (d, map (\<lambda>i. score_term mats ?c alpha i d) [0..<n],
                   map (\<lambda>i. norm_term mats (replicate n 1) alpha alpha_norm i d) [0..<n]))
                  [1..<length mats]"
  have lc: "length ?c = n" using assms(2) by (simp add: causal_genes_vec_def)
  have ds: "\<forall>d\<in>set [1..<length mats]. 1 \<le> d \<and> d < length mats" by simp
  have "contributions_loop [1..<length mats] mats ?c (replicate n 1) alpha alpha_norm
          (replicate n 0, replicate n 0, []) = (None, [] @ ?files)"
    by (rule contributions_loop_ok [OF assms(1) ds lc _ _ _ assms(3)]) simp_all
  then have run: "calculate_contributions G mats cg alpha d_max alpha_norm patho = (None, ?files)"
    by (simp add: calculate_contributions_def Let_def lc)
  have keys: "map fst ?files = [1..<length mats]"
    by (simp add: comp_def)
  have s: "sum_vectors n (map (\<lambda>f. fst (snd f)) ?files) =
             map (node_score_sum mats ?c alpha) [0..<n]"
    by (simp add: sum_vectors_def node_score_sum_def comp_def cong: map_cong)
  have nr: "sum_vectors n (map (\<lambda>f. snd (snd f)) ?files) =
             map (node_norm_sum mats n alpha alpha_norm) [0..<n]"
    by (simp add: sum_vectors_def node_norm_sum_def comp_def cong: map_cong)
  show ?thesis
    using run keys s nr accumulate_scores_ok [OF assms, of cg alpha] by blast
qed


theorem contributions_sum_to_scores_witness:
  "powers_ok 3 path3_powers \<and> 3 = length (nodes path3) \<and> (1::real) \<noteq> 0
   \<and> (\<exists>files scores_vec norm_factors_vec.
           calculate_contributions path3 path3_powers [''A'' \<mapsto> 1] (1/2) 2 1 ''MMAF'' = (None, files)
         \<and> accumulate_scores path3 path3_powers [''A'' \<mapsto> 1] (1/2) 1 = Inr (scores_vec, norm_factors_vec)
         \<and> map fst files = [1..<length path3_powers]
         \<and> sum_vectors 3 (map (\<lambda>f. fst (snd f)) files) = scores_vec
         \<and> sum_vectors 3 (map (\<lambda>f. snd (snd f)) files) = norm_factors_vec)"
proof -
  have n: "3 = length (nodes path3)" by (simp add: path3_def)
  have nz: "(1::real) \<noteq> 0" by simp
  show ?thesis
    using contributions_sum_to_scores [OF path3_powers_ok n nz, of "[''A'' \<mapsto> 1]" "1/2" 2 "''MMAF''"]
      path3_powers_ok n
    by simp
qed

lemma causal_genes_vec_restrict:
  "causal_genes_vec G (cg |` set (nodes G)) = causal_genes_vec G cg"
  by (simp add: causal_genes_vec_eq restrict_map_def cong: map_cong)

text \<open>
  C7 as the code has it. \<^verbatim>\<open>calculate_scores\<close> makes no check of \<^verbatim>\<open>causal_genes\<close> against
  the graph: the indicator loop runs over the nodes of the graph only, so a key of
  \<^verbatim>\<open>causal_genes\<close> that is not a node is never looked at, and the result is the result for
  the causal genes that are nodes.
\<close>

theorem absent_causal_genes_ignored:
  "calculate_scores G mats cg alpha alpha_norm =
   calculate_scores G mats (cg |` set (nodes G)) alpha alpha_norm"
  by (simp add: calculate_scores_def accumulate_scores_def causal_genes_vec_restrict)


text \<open>
  C7 as stated fails: with the causal genes \<open>A\<close> and \<open>Z\<close> on the path \<open>A \<midarrow> B \<midarrow> C\<close>, where
  \<open>Z\<close> is no node, the scoring returns its scores and raises nothing.
\<close>

theorem absent_causal_gene_counterexample:
  "[''A'' \<mapsto> 1, ''Z'' \<mapsto> 1] ''Z'' \<noteq> None \<and> ''Z'' \<notin> set (nodes path3)
   \<and> calculate_scores path3 path3_powers [''A'' \<mapsto> 1, ''Z'' \<mapsto> 1] (1/2) 1 =
       Inr [(''A'', Finite 0), (''B'', Finite (1/2)), (''C'', Finite (1/3))]"
proof -
  have "[''A'' \<mapsto> 1::int, ''Z'' \<mapsto> 1] |` set (nodes path3) = [''A'' \<mapsto> 1] |` set (nodes path3)"
    by (rule ext) (simp add: restrict_map_def path3_def)
  then have "calculate_scores path3 path3_powers [''A'' \<mapsto> 1, ''Z'' \<mapsto> 1] (1/2) 1
           = calculate_scores path3 path3_powers [''A'' \<mapsto> 1] (1/2) 1"
    by (simp add: calculate_scores_def accumulate_scores_def causal_genes_vec_eq path3_def)
  then show ?thesis by (simp add: path3_scores) (simp add: path3_def)
qed


text \<open>
  C10. Whenever \<^verbatim>\<open>calculate_scores\<close> returns, the keys of the returned dictionary are the
  nodes of the graph, each once, and in the node order of the graph (a \<^verbatim>\<open>networkx\<close> graph
  holds every node once); the value plays no part, so a node whose score is \<^verbatim>\<open>nan\<close> or
  infinite keeps its entry.
\<close>

theorem scores_one_entry_per_node:
  assumes "calculate_scores G mats cg alpha alpha_norm = Inr scores"
  shows "fst ` set scores = set (nodes G) \<and> distinct (map fst scores)
         \<and> (distinct (nodes G) \<longrightarrow> map fst scores = nodes G)"
proof -
  obtain s nr where acc: "accumulate_scores G mats cg alpha alpha_norm = Inr (s, nr)"
    and scores: "scores = dict (zip (nodes G) (map2 true_divide s nr))"
    using assms by (auto simp: calculate_scores_def split: sum.splits)
  have "length s = length (nodes G) \<and> length nr = length (nodes G)"
    using score_loop_length [OF acc [unfolded accumulate_scores_def Let_def]]
    by (simp add: causal_genes_vec_def)
  then have keys: "map fst (zip (nodes G) (map2 true_divide s nr)) = nodes G"
    by (intro nth_equalityI) simp_all
  have 1: "fst ` set scores = set (nodes G)"
    unfolding scores dict_keys using keys by (metis set_map)
  have 2: "distinct (map fst scores)"
    unfolding scores by (rule dict_distinct_keys)
  have 3: "map fst scores = nodes G" if "distinct (nodes G)"
    unfolding scores using that keys by (simp add: dict_distinct)
  show ?thesis using 1 2 3 by blast
qed


theorem scores_one_entry_per_node_witness:
  "calculate_scores iso3 iso3_powers [''A'' \<mapsto> 1] (1/2) 1 =
     Inr [(''A'', Finite 0), (''B'', Finite 1), (''C'', NaN)]
   \<and> distinct (nodes iso3)
   \<and> fst ` set [(''A'', Finite 0), (''B'', Finite 1), (''C'', NaN)] = set (nodes iso3)
   \<and> distinct (map fst [(''A'', Finite 0), (''B'', Finite 1), (''C'', NaN)])
   \<and> map fst [(''A'', Finite 0), (''B'', Finite 1), (''C'', NaN)] = nodes iso3"
proof -
  have d: "distinct (nodes iso3)" by (simp add: iso3_def)
  show ?thesis
    using scores_one_entry_per_node [OF iso3_scores] d iso3_scores by blast
qed

lemma true_divide_cases:
  "(y = 0 \<longrightarrow> true_divide x y \<in> {NaN, PosInf, NegInf}) \<and> (y \<noteq> 0 \<longrightarrow> true_divide x y = Finite (x / y))"
  by (simp add: true_divide_def)

text \<open>
  C5. For a sequence of \<open>n \<times> n\<close> arrays, a non-zero \<open>alpha_norm\<close> and a graph that holds
  every node once, the loop and the division both return: nothing is raised. Node by node,
  a zero in \<^verbatim>\<open>norm_factors_vec\<close> gives \<^verbatim>\<open>nan\<close> or an infinity at that node, and every node
  with a non-zero denominator gets the finite quotient of its own two accumulators.
\<close>

theorem zero_denominator_per_node:
  assumes "powers_ok n mats" "n = length (nodes G)" "alpha_norm \<noteq> 0" "distinct (nodes G)"
  shows "\<exists>scores_vec norm_factors_vec scores.
           accumulate_scores G mats cg alpha alpha_norm = Inr (scores_vec, norm_factors_vec)
         \<and> calculate_scores G mats cg alpha alpha_norm = Inr scores
         \<and> length scores = n
         \<and> (\<forall>i<n. fst (scores ! i) = nodes G ! i
               \<and> (norm_factors_vec ! i = 0 \<longrightarrow> snd (scores ! i) \<in> {NaN, PosInf, NegInf})
               \<and> (norm_factors_vec ! i \<noteq> 0 \<longrightarrow>
                    snd (scores ! i) = Finite (scores_vec ! i / norm_factors_vec ! i)))"
proof -
  let ?s = "map (node_score_sum mats (causal_genes_vec G cg) alpha) [0..<n]"
  let ?nr = "map (node_norm_sum mats n alpha alpha_norm) [0..<n]"
  let ?scores = "map (\<lambda>i. (nodes G ! i,
                           true_divide (node_score_sum mats (causal_genes_vec G cg) alpha i)
                                       (node_norm_sum mats n alpha alpha_norm i))) [0..<n]"
  have acc: "accumulate_scores G mats cg alpha alpha_norm = Inr (?s, ?nr)"
    by (rule accumulate_scores_ok [OF assms(1-3)])
  have run: "calculate_scores G mats cg alpha alpha_norm = Inr ?scores"
    by (rule calculate_scores_ok [OF assms])
  have "\<forall>i<n. fst (?scores ! i) = nodes G ! i
               \<and> (?nr ! i = 0 \<longrightarrow> snd (?scores ! i) \<in> {NaN, PosInf, NegInf})
               \<and> (?nr ! i \<noteq> 0 \<longrightarrow> snd (?scores ! i) = Finite (?s ! i / ?nr ! i))"
    using true_divide_cases by simp
  moreover have "length ?scores = n" by simp
  ultimately show ?thesis using acc run by blast
qed

theorem zero_denominator_per_node_witness:
  "powers_ok 3 iso3_powers \<and> 3 = length (nodes iso3) \<and> (1::real) \<noteq> 0 \<and> distinct (nodes iso3)
   \<and> (\<exists>scores_vec norm_factors_vec scores.
           accumulate_scores iso3 iso3_powers [''A'' \<mapsto> 1] (1/2) 1 = Inr (scores_vec, norm_factors_vec)
         \<and> calculate_scores iso3 iso3_powers [''A'' \<mapsto> 1] (1/2) 1 = Inr scores
         \<and> length scores = 3
         \<and> (\<forall>i<3. fst (scores ! i) = nodes iso3 ! i
               \<and> (norm_factors_vec ! i = 0 \<longrightarrow> snd (scores ! i) \<in> {NaN, PosInf, NegInf})
               \<and> (norm_factors_vec ! i \<noteq> 0 \<longrightarrow>
                    snd (scores ! i) = Finite (scores_vec ! i / norm_factors_vec ! i))))
   \<and> accumulate_scores iso3 iso3_powers [''A'' \<mapsto> 1] (1/2) 1 = Inr ([0, 1/2, 0], [1/2, 1/2, 0])
   \<and> calculate_scores iso3 iso3_powers [''A'' \<mapsto> 1] (1/2) 1 =
        Inr [(''A'', Finite 0), (''B'', Finite 1), (''C'', NaN)]"
proof -
  have n: "3 = length (nodes iso3)" by (simp add: iso3_def)
  have nz: "(1::real) \<noteq> 0" by simp
  have d: "distinct (nodes iso3)" by (simp add: iso3_def)
  show ?thesis
    using zero_denominator_per_node [OF iso3_powers_ok n nz d, of "[''A'' \<mapsto> 1]" "1/2"]
      iso3_powers_ok n nz d iso3_acc iso3_scores
    by blast
qed

text \<open>
  C4. Under the same conditions the entry of every node \<open>i\<close>, causal or not, is the quotient
  of the same two sums over the distances, taken over row \<open>i\<close> of each array; no node is
  set to 1. In the run on the path \<open>A \<midarrow> B \<midarrow> C\<close> the causal gene \<open>A\<close> scores 0.
\<close>

theorem uniform_formula_for_every_node:
  assumes "powers_ok n mats" "n = length (nodes G)" "alpha_norm \<noteq> 0" "distinct (nodes G)"
    and "i < n"
  shows "\<exists>scores. calculate_scores G mats cg alpha alpha_norm = Inr scores
         \<and> scores ! i =
             (nodes G ! i,
              true_divide (node_score_sum mats (causal_genes_vec G cg) alpha i)
                          (node_norm_sum mats n alpha alpha_norm i))"
  using calculate_scores_ok [OF assms(1-4), of cg alpha] assms(5) by simp


theorem uniform_formula_for_every_node_witness:
  "powers_ok 3 path3_powers \<and> 3 = length (nodes path3) \<and> (1::real) \<noteq> 0
   \<and> distinct (nodes path3) \<and> (0::nat) < 3
   \<and> [''A'' \<mapsto> 1::int] (nodes path3 ! 0) \<noteq> None
   \<and> (\<exists>scores. calculate_scores path3 path3_powers [''A'' \<mapsto> 1] (1/2) 1 = Inr scores
         \<and> scores ! 0 =
             (nodes path3 ! 0,
              true_divide (node_score_sum path3_powers (causal_genes_vec path3 [''A'' \<mapsto> 1]) (1/2) 0)
                          (node_norm_sum path3_powers 3 (1/2) 1 0))
         \<and> scores ! 0 = (''A'', Finite 0))"
proof -
  have n: "3 = length (nodes path3)" by (simp add: path3_def)
  have nz: "(1::real) \<noteq> 0" by simp
  have d: "distinct (nodes path3)" by (simp add: path3_def)
  have i: "(0::nat) < 3" by simp
  have c: "[''A'' \<mapsto> 1::int] (nodes path3 ! 0) \<noteq> None" by (simp add: path3_def)
  obtain scores where run: "calculate_scores path3 path3_powers [''A'' \<mapsto> 1] (1/2) 1 = Inr scores"
    and f: "scores ! 0 =
             (nodes path3 ! 0,
              true_divide (node_score_sum path3_powers (causal_genes_vec path3 [''A'' \<mapsto> 1]) (1/2) 0)
                          (node_norm_sum path3_powers 3 (1/2) 1 0))"
    using uniform_formula_for_every_node [OF path3_powers_ok n nz d i, of "[''A'' \<mapsto> 1]" "1/2"]
    by blast
  have "scores = [(''A'', Finite 0), (''B'', Finite (1/2)), (''C'', Finite (1/3))]"
    using run path3_scores by simp
  then have v: "scores ! 0 = (''A'', Finite 0)" by simp
  show ?thesis
    using path3_powers_ok n nz d i c run f v by blast
qed

lemma iadd_same_shape:
  assumes "length nr1 = length nr2" "length r1 = length r2"
  shows "(\<exists>e. iadd nr1 r1 = Inl e \<and> iadd nr2 r2 = Inl e)
       \<or> (\<exists>a b. iadd nr1 r1 = Inr a \<and> iadd nr2 r2 = Inr b \<and> length a = length b)"
  using assms by (simp add: iadd_def)

lemma score_step_alpha_norm:
  assumes nz: "an1 \<noteq> 0" "an2 \<noteq> 0" and len: "length nr1 = length nr2"
  shows "(\<exists>e. score_step mats c ones alpha an1 d (s, nr1) = Inl e
            \<and> score_step mats c ones alpha an2 d (s, nr2) = Inl e)
       \<or> (\<exists>s' a b. score_step mats c ones alpha an1 d (s, nr1) = Inr (s', a)
            \<and> score_step mats c ones alpha an2 d (s, nr2) = Inr (s', b)
            \<and> length a = length b)"
proof (cases "mats ! d")
  case Unused
  then show ?thesis by (simp add: score_step_def)
next
  case (Arr A)
  show ?thesis
  proof (cases "dot_uint8 A c")
    case (Inl e)
    then show ?thesis by (simp add: score_step_def Arr)
  next
    case sc: (Inr sc)
    show ?thesis
    proof (cases "iadd s (map (\<lambda>w. alpha ^ d * real (unat w)) sc)")
      case (Inl e)
      then show ?thesis by (simp add: score_step_def Arr sc)
    next
      case s': (Inr s')
      show ?thesis
      proof (cases "dot_float64 A ones")
        case (Inl e)
        then show ?thesis using nz s' by (simp add: score_step_def Arr sc)
      next
        case nm: (Inr nm)
        have "length (map (\<lambda>x. (alpha / an1) ^ d * x) nm) = length (map (\<lambda>x. (alpha / an2) ^ d * x) nm)"
          by simp
        from iadd_same_shape [OF len this]
        show ?thesis using nz s' by (auto simp: score_step_def Arr sc nm)
      qed
    qed
  qed
qed

lemma score_loop_alpha_norm:
  assumes nz: "an1 \<noteq> 0" "an2 \<noteq> 0"
  shows "length nr1 = length nr2 \<Longrightarrow>
         map_sum id fst (score_loop ds mats c ones alpha an1 (s, nr1)) =
         map_sum id fst (score_loop ds mats c ones alpha an2 (s, nr2))"
proof (induction ds arbitrary: s nr1 nr2)
  case Nil
  then show ?case by simp
next
  case (Cons d ds)
  from score_step_alpha_norm [OF nz Cons.prems, of mats c ones alpha d s]
  show ?case
  proof (elim disjE exE conjE)
    fix e
    assume "score_step mats c ones alpha an1 d (s, nr1) = Inl e"
      "score_step mats c ones alpha an2 d (s, nr2) = Inl e"
    then show ?thesis by simp
  next
    fix s' a b
    assume "score_step mats c ones alpha an1 d (s, nr1) = Inr (s', a)"
      "score_step mats c ones alpha an2 d (s, nr2) = Inr (s', b)" "length a = length b"
    then show ?thesis using Cons.IH [of a b s'] by simp
  qed
qed

lemma path3_acc_half:
  "accumulate_scores path3 path3_powers [''A'' \<mapsto> 1] (1/2) (1/2) = Inr ([0, 1/2, 1/4], [2, 2, 2])"
  by (simp add: accumulate_scores_def path3_cgv path3_powers_def upt_1_3 score_step_def
      dot_uint8_def dot_float64_def row_dot_uint8_def row_dot_float64_def ncols_def iadd_def
      power2_eq_square)

text \<open>
  C8. For two non-zero values of \<open>alpha_norm\<close> and everything else equal, the two runs of
  the accumulation end alike: with the same exception, or with the same \<^verbatim>\<open>scores_vec\<close>.
  \<open>alpha_norm\<close> enters the normalisation vector only.
\<close>

theorem numerator_independent_of_alpha_norm:
  assumes "an1 \<noteq> 0" "an2 \<noteq> 0"
  shows "map_sum id fst (accumulate_scores G mats cg alpha an1) =
         map_sum id fst (accumulate_scores G mats cg alpha an2)"
  unfolding accumulate_scores_def Let_def
  by (rule score_loop_alpha_norm [OF assms]) simp


theorem numerator_independent_of_alpha_norm_witness:
  "(1::real) \<noteq> 0 \<and> (1/2::real) \<noteq> 0
   \<and> map_sum id fst (accumulate_scores path3 path3_powers [''A'' \<mapsto> 1] (1/2) 1) =
     map_sum id fst (accumulate_scores path3 path3_powers [''A'' \<mapsto> 1] (1/2) (1/2))
   \<and> accumulate_scores path3 path3_powers [''A'' \<mapsto> 1] (1/2) 1 = Inr ([0, 1/2, 1/4], [3/4, 1, 3/4])
   \<and> accumulate_scores path3 path3_powers [''A'' \<mapsto> 1] (1/2) (1/2) = Inr ([0, 1/2, 1/4], [2, 2, 2])"
proof -
  have a: "(1::real) \<noteq> 0" and b: "(1/2::real) \<noteq> 0" by simp_all
  show ?thesis
    using numerator_independent_of_alpha_norm [OF a b, of path3 path3_powers "[''A'' \<mapsto> 1]" "1/2"]
      a b path3_acc path3_acc_half
    by blast
qed

subsection \<open>The indicator vector is a \<^verbatim>\<open>uint8\<close> array\<close>

lemma star_nodes: "nodes star_graph = [0..<257]"
  by (simp add: star_graph_def)

lemma star_has_edge: "j < 257 \<Longrightarrow> has_edge star_graph 0 j \<longleftrightarrow> 1 \<le> j"
  by (auto simp: has_edge_def star_graph_def)

lemma sum_list_upt_ge1:
  "(\<Sum>j\<leftarrow>[0..<Suc m]. (if 1 \<le> j then 1 else 0)) = (of_nat m :: 'a :: semiring_1)"
proof -
  have "[0..<Suc m] = 0 # map Suc [0..<m]"
    by (simp add: upt_conv_Cons map_Suc_upt del: upt_Suc)
  then show ?thesis
    by (simp add: comp_def sum_list_triv del: upt_Suc)
qed

lemma row_dot_uint8_maps:
  "row_dot_uint8 (map p xs) (map q xs) = (\<Sum>x\<leftarrow>xs. (if p x then 1 else 0) * q x)"
  by (simp add: row_dot_uint8_def zip_map_map zip_same_conv_map comp_def)

lemma row_dot_float64_maps:
  "row_dot_float64 (map p xs) (map q xs) = (\<Sum>x\<leftarrow>xs. (if p x then 1 else 0) * q x)"
  by (simp add: row_dot_float64_def zip_map_map zip_same_conv_map comp_def)

lemma spec_dot_maps:
  "spec_dot (map p [0..<m]) (map q [0..<m]) = (\<Sum>x\<leftarrow>[0..<m]. (if p x then 1 else 0) * q x)"
  unfolding spec_dot_def
  by (rule arg_cong [where f = sum_list], rule map_cong) simp_all

lemma mult_ind: "(if b then 1 else 0) * (if b then 1 else 0) = (if b then 1 else (0::'a::semiring_1))"
  by simp

lemma star_dot_uint8:
  "row_dot_uint8 (map (\<lambda>j. 1 \<le> j) [0..<257]) (map (\<lambda>j. if 1 \<le> j then 1 else 0) [0..<257]) = 0"
proof -
  have "257 = Suc 256" by simp
  then show ?thesis
    using sum_list_upt_ge1 [of 256, where 'a = "8 word"]
    by (simp add: row_dot_uint8_maps mult_ind)
qed

lemma star_dot_float64:
  "row_dot_float64 (map (\<lambda>j. 1 \<le> j) [0..<257]) (replicate 257 1) = 256"
proof -
  have r: "replicate 257 (1::real) = map (\<lambda>j. 1) [0..<257]"
    by (simp add: map_replicate_trivial)
  have "257 = Suc 256" by simp
  then show ?thesis
    using sum_list_upt_ge1 [of 256, where 'a = real]
    unfolding r by (simp add: row_dot_float64_maps)
qed


lemma star_first_row:
  "zero_nonzero_diagonal (map (\<lambda>u. map (\<lambda>v. has_edge star_graph u v) (nodes star_graph))
      (nodes star_graph)) ! 0 = map (\<lambda>j. 1 \<le> j) [0..<257]"
proof (rule nth_equalityI)
  let ?A = "zero_nonzero_diagonal (map (\<lambda>u. map (\<lambda>v. has_edge star_graph u v) (nodes star_graph))
      (nodes star_graph))"
  have sh: "shape_ok 257 ?A"
    using shape_ok_zero_nonzero_diagonal [OF shape_ok_adjacency, of star_graph]
    by (simp add: star_nodes)
  then show "length (?A ! 0) = length (map (\<lambda>j. 1 \<le> j) [0..<257])"
    by (simp add: shape_ok_def list_all_length)
  fix j assume "j < length (?A ! 0)"
  then have j: "j < 257" using sh by (simp add: shape_ok_def list_all_length)
  then have "?A ! 0 ! j \<longleftrightarrow> 0 \<noteq> j \<and> has_edge star_graph (nodes star_graph ! 0) (nodes star_graph ! j)"
    by (intro first_power_entry) (simp_all add: star_nodes)
  then show "?A ! 0 ! j = map (\<lambda>j. 1 \<le> j) [0..<257] ! j"
    using j star_has_edge [OF j] by (auto simp: star_nodes)
qed

lemma star_causal_vec:
  "causal_genes_vec star_graph star_causal = map (\<lambda>j. if 1 \<le> j then 1 else 0) [0..<257]"
  unfolding causal_genes_vec_eq star_nodes
  by (rule map_cong) (simp_all add: star_causal_def)

lemma star_spec_indicator:
  "spec_indicator star_graph star_causal = map (\<lambda>j. if 1 \<le> j then 1 else 0) [0..<257]"
  unfolding spec_indicator_def star_nodes
  by (rule map_cong) (auto simp: star_causal_def dom_def)

text \<open>
  Below 256 causal genes among the nodes no row sum can wrap, and the code computes exactly
  the scores of the specification.
\<close>

lemma unat_sum_list_uint8:
  "sum_list (map unat ws) < 256 \<Longrightarrow> unat (sum_list ws :: 8 word) = sum_list (map unat ws)"
proof (induction ws)
  case Nil
  then show ?case by simp
next
  case (Cons w ws)
  then have "sum_list (map unat ws) < 256" by simp
  then have "unat (sum_list ws) = sum_list (map unat ws)" by (rule Cons.IH)
  then show ?case using Cons.prems by (simp add: unat_word_ariths)
qed

lemma map2_conv_nth:
  "length xs = length ys \<Longrightarrow> map2 h xs ys = map (\<lambda>j. h (xs ! j) (ys ! j)) [0..<length ys]"
  by (rule nth_equalityI) simp_all

lemma row_dot_uint8_exact:
  fixes p :: "'a \<Rightarrow> bool"
  assumes len: "length row = length ns"
    and few: "length (filter p ns) < 256"
  shows "real (unat (row_dot_uint8 row (map (\<lambda>u. if p u then 1 else 0) ns))) =
         spec_dot row (map (\<lambda>u. if p u then 1 else 0) ns)"
proof -
  let ?c = "map (\<lambda>u. if p u then 1 else 0 :: 8 word) ns"
  let ?ws = "map2 (\<lambda>a v. (if a then 1 else 0) * v) row ?c"
  have ws: "?ws = map (\<lambda>j. if row ! j \<and> p (ns ! j) then 1 else 0) [0..<length ns]"
    using len by (intro nth_equalityI) simp_all
  have un: "map unat ?ws = map (\<lambda>j. if row ! j \<and> p (ns ! j) then 1 else 0) [0..<length ns]"
    unfolding ws by simp
  have "sum_list (map unat ?ws) \<le> sum_list (map (\<lambda>j. if p (ns ! j) then 1 else 0) [0..<length ns])"
    unfolding un by (rule sum_list_mono) simp
  also have "map (\<lambda>j. if p (ns ! j) then 1 else 0 :: nat) [0..<length ns] = map (\<lambda>u. if p u then 1 else 0) ns"
    by (rule nth_equalityI) simp_all
  also have "sum_list (map (\<lambda>u. if p u then 1 else 0 :: nat) ns) = length (filter p ns)"
    by (induction ns) simp_all
  finally have small: "sum_list (map unat ?ws) < 256" using few by simp
  have "real (unat (row_dot_uint8 row ?c)) = real (sum_list (map unat ?ws))"
    unfolding row_dot_uint8_def using unat_sum_list_uint8 [OF small] by simp
  also have "\<dots> = real (\<Sum>j\<leftarrow>[0..<length ns]. if row ! j \<and> p (ns ! j) then 1 else 0)"
    by (simp only: un)
  also have "\<dots> = (\<Sum>j\<leftarrow>[0..<length ns]. if row ! j \<and> p (ns ! j) then 1 else 0)"
  proof -
    have "real (if b then 1 else 0) = (if b then 1 else 0)" for b by simp
    then show ?thesis by (simp add: comp_def flip: sum_list_of_nat)
  qed
  also have "\<dots> = spec_dot row (map (\<lambda>u. if p u then 1 else 0) ns)"
    unfolding spec_dot_def
    by (simp, rule arg_cong [where f = sum_list], rule map_cong) simp_all
  finally show ?thesis .
qed

lemma row_dot_float64_spec:
  assumes "length row = length v"
  shows "row_dot_float64 row v = spec_dot row v"
  unfolding row_dot_float64_def spec_dot_def map2_conv_nth [OF assms] ..

lemma node_score_sum_exact:
  assumes ok: "powers_ok n mats" and n: "n = length (nodes G)" and i: "i < n"
    and few: "length (filter (\<lambda>u. cg u \<noteq> None) (nodes G)) < 256"
  shows "node_score_sum mats (causal_genes_vec G cg) alpha i =
         spec_score mats (spec_indicator G cg) alpha i"
  unfolding node_score_sum_def spec_score_def
proof (rule arg_cong [where f = sum_list], rule map_cong)
  fix d assume "d \<in> set [1..<length mats]"
  then obtain A where A: "mats ! d = Arr A" "shape_ok n A"
    using powers_okD [OF ok, of d] by auto
  have len: "length (A ! i) = length (nodes G)"
    using A(2) i n by (simp add: shape_ok_def list_all_length)
  have ind: "spec_indicator G cg = map (\<lambda>u. if cg u \<noteq> None then 1 else 0) (nodes G)"
    by (simp add: spec_indicator_def dom_def)
  show "score_term mats (causal_genes_vec G cg) alpha i d =
        alpha ^ d * spec_dot (the_arr (mats ! d) ! i) (spec_indicator G cg)"
    unfolding score_term_def causal_genes_vec_eq ind
    using row_dot_uint8_exact [OF len few] by (simp add: A(1) the_arr_def)
qed simp

lemma node_norm_sum_exact:
  assumes ok: "powers_ok n mats" and i: "i < n"
  shows "node_norm_sum mats n alpha alpha_norm i = spec_norm mats n alpha alpha_norm i"
  unfolding node_norm_sum_def spec_norm_def
proof (rule arg_cong [where f = sum_list], rule map_cong)
  fix d assume "d \<in> set [1..<length mats]"
  then obtain A where A: "mats ! d = Arr A" "shape_ok n A"
    using powers_okD [OF ok, of d] by auto
  have len: "length (A ! i) = length (replicate n (1::real))"
    using A(2) i by (simp add: shape_ok_def list_all_length)
  show "norm_term mats (replicate n 1) alpha alpha_norm i d =
        (alpha / alpha_norm) ^ d * spec_dot (the_arr (mats ! d) ! i) (replicate n 1)"
    unfolding norm_term_def using row_dot_float64_spec [OF len] by (simp add: A(1) the_arr_def)
qed simp

lemma calculate_scores_exact_below_256:
  assumes "powers_ok n mats" "n = length (nodes G)" "alpha_norm \<noteq> 0" "distinct (nodes G)"
    and "length (filter (\<lambda>u. cg u \<noteq> None) (nodes G)) < 256"
  shows "calculate_scores G mats cg alpha alpha_norm = Inr (spec_scores G mats cg alpha alpha_norm)"
proof -
  have "map (\<lambda>i. (nodes G ! i,
                 true_divide (node_score_sum mats (causal_genes_vec G cg) alpha i)
                             (node_norm_sum mats n alpha alpha_norm i))) [0..<n]
      = spec_scores G mats cg alpha alpha_norm"
    unfolding spec_scores_def Let_def
    using assms(2) node_score_sum_exact [OF assms(1,2) _ assms(5)] node_norm_sum_exact [OF assms(1)]
    by (intro nth_equalityI) simp_all
  then show ?thesis
    using calculate_scores_ok [OF assms(1-4), of cg alpha] by simp
qed


text \<open>
  C1 fails on the code. \<^verbatim>\<open>causal_genes_vec\<close> has \<^verbatim>\<open>dtype=numpy.uint8\<close>, so
  \<^verbatim>\<open>A.dot(causal_genes_vec)\<close> is computed in \<^verbatim>\<open>uint8\<close> and a node with 256 causal genes at
  distance \<open>d\<close> gets the count 0. On the star with 256 causal leaves and \<open>d_max = 1\<close>,
  \<open>alpha = 1/2\<close>, \<open>alpha_norm = 1\<close>, the code scores the centre 0, and the formula of the
  specification scores it 1.
\<close>

theorem uint8_dot_wraps_at_256_causal_neighbours:
  "case get_adjacency_matrices star_graph 1 of
     Inl e \<Rightarrow> False
   | Inr mats \<Rightarrow>
       (case calculate_scores star_graph mats star_causal (1/2) 1 of
          Inl e \<Rightarrow> False
        | Inr scores \<Rightarrow> scores ! 0 = (0, Finite 0))
       \<and> spec_scores star_graph mats star_causal (1/2) 1 ! 0 = (0, Finite 1)"
proof -
  let ?A = "zero_nonzero_diagonal (map (\<lambda>u. map (\<lambda>v. has_edge star_graph u v) (nodes star_graph))
      (nodes star_graph))"
  let ?c = "causal_genes_vec star_graph star_causal"
  have ne: "nodes star_graph \<noteq> []" by (simp add: star_nodes)
  obtain mats where run: "get_adjacency_matrices star_graph 1 = Inr mats"
    using builder_returns [OF ne] by blast
  have len: "length mats = 2"
    using get_adjacency_matrices_length [OF run] by simp
  have m1: "mats ! 1 = Arr ?A" by (rule builder_first_power [OF run])
  have n: "257 = length (nodes star_graph)" by (simp add: star_nodes)
  have ok: "powers_ok 257 mats"
    using builder_powers_ok [OF run] by (simp add: star_nodes)
  have dist: "distinct (nodes star_graph)" by (simp add: star_nodes)
  have ds: "[1..<length mats] = [1]" by (simp add: len upt_rec)
  have row: "the_arr (mats ! 1) ! 0 = map (\<lambda>j. 1 \<le> j) [0..<257]"
    by (simp add: m1 [simplified] the_arr_def star_first_row)
  have num: "node_score_sum mats ?c (1/2) 0 = 0"
    unfolding node_score_sum_def ds using row star_causal_vec star_dot_uint8
    by (simp add: score_term_def)
  have den: "node_norm_sum mats 257 (1/2) 1 0 = 128"
    unfolding node_norm_sum_def ds using row star_dot_float64
    by (simp add: norm_term_def)
  have code: "calculate_scores star_graph mats star_causal (1/2) 1 =
      Inr (map (\<lambda>i. (nodes star_graph ! i,
                           true_divide (node_score_sum mats ?c (1/2) i)
                                       (node_norm_sum mats 257 (1/2) 1 i))) [0..<257])"
    by (rule calculate_scores_ok [OF ok n _ dist]) simp
  have code0: "map (\<lambda>i. (nodes star_graph ! i,
                           true_divide (node_score_sum mats ?c (1/2) i)
                                       (node_norm_sum mats 257 (1/2) 1 i))) [0..<257] ! 0
             = (0, Finite 0)"
    by (simp add: num den true_divide_def star_nodes)
  have r: "replicate 257 (1::real) = map (\<lambda>j. 1) [0..<257]"
    by (simp add: map_replicate_trivial)
  have "257 = Suc 256" by simp
  then have sd: "spec_dot (map (\<lambda>j. 1 \<le> j) [0..<257]) (map (\<lambda>j. if 1 \<le> j then 1 else 0) [0..<257]) = 256"
    "spec_dot (map (\<lambda>j. 1 \<le> j) [0..<257]) (map (\<lambda>j. 1) [0..<257]) = 256"
    using sum_list_upt_ge1 [of 256, where 'a = real]
    by (simp_all add: spec_dot_maps mult_ind)
  have snum: "spec_score mats (spec_indicator star_graph star_causal) (1/2) 0 = 128"
    unfolding spec_score_def ds using row star_spec_indicator sd
    by simp
  have sden: "spec_norm mats 257 (1/2) 1 0 = 128"
    unfolding r spec_norm_def ds using row sd
    by simp
  have spec: "spec_scores star_graph mats star_causal (1/2) 1 ! 0 = (0, Finite 1)"
    using snum sden by (simp add: spec_scores_def Let_def star_nodes true_divide_def)
  show ?thesis
    using code code0 spec by (simp add: run)
qed


end
